theory Spec2Isabelle
  imports Main
begin

section \<open>Values, thrown values and messages\<close>

text \<open>
  The book provider works on what \<^verbatim>\<open>yaml.safeLoad\<close> returns, typed \<^verbatim>\<open>any\<close> in the
  source. A value is therefore one of the shapes a YAML document can load to. Numeric
  scalars are carried as integers: the functions below only ever test them for
  truthiness. A mapping is an association list in key order; \<^verbatim>\<open>safeLoad\<close> refuses
  duplicate keys, so the first binding of a key is its only one.
\<close>

datatype jsval =
    JUndefined
  | JNull
  | JBool bool
  | JNum int
  | JStr string
  | JArr "jsval list"
  | JObj "(string \<times> jsval) list"

text \<open>
  A message is either the arguments of one \<^verbatim>\<open>localize(key, template, args)\<close> call (the
  formatting is done by the host's \<^verbatim>\<open>vscode-nls\<close>) or the \<^verbatim>\<open>message\<close> of an
  \<^verbatim>\<open>Error\<close> instance. What a \<^verbatim>\<open>throw\<close> raises is an \<^verbatim>\<open>Error\<close> instance or, in
  \<^verbatim>\<open>flattenArray\<close>, a bare localized string.
\<close>

datatype js_error =
    TypeError
  | ENOENT string
  | EEXIST string
  | ENOTDIR string
  | EISDIR string
  | YAMLException string
  | Error_text string

datatype message =
    Localized string string "jsval list"
  | Message_of js_error

datatype thrown = Throw_Error js_error | Throw_String message

text \<open>
  Property read \<^verbatim>\<open>v.k\<close>, for the property names the source reads (\<^verbatim>\<open>title\<close>,
  \<^verbatim>\<open>url\<close>, \<^verbatim>\<open>external\<close>, \<^verbatim>\<open>sections\<close>): a \<^verbatim>\<open>TypeError\<close> on \<^verbatim>\<open>undefined\<close> and
  \<^verbatim>\<open>null\<close>, the bound value on a mapping, \<^verbatim>\<open>undefined\<close> everywhere else (scalars and
  arrays carry none of these names).
\<close>

definition get_prop :: "jsval \<Rightarrow> string \<Rightarrow> thrown + jsval" where
  "get_prop v k =
     (case v of
        JUndefined \<Rightarrow> Inl (Throw_Error TypeError)
      | JNull \<Rightarrow> Inl (Throw_Error TypeError)
      | JObj kvs \<Rightarrow> Inr (case map_of kvs k of None \<Rightarrow> JUndefined | Some x \<Rightarrow> x)
      | _ \<Rightarrow> Inr JUndefined)"

text \<open>JavaScript truthiness, as used by \<^verbatim>\<open>if (sections[i].url)\<close>.\<close>

definition truthy :: "jsval \<Rightarrow> bool" where
  "truthy v =
     (case v of
        JUndefined \<Rightarrow> False
      | JNull \<Rightarrow> False
      | JBool b \<Rightarrow> b
      | JNum n \<Rightarrow> n \<noteq> 0
      | JStr s \<Rightarrow> s \<noteq> []
      | JArr _ \<Rightarrow> True
      | JObj _ \<Rightarrow> True)"

text \<open>\<^verbatim>\<open>acc.concat(v)\<close>: an array argument is spread one level, anything else is appended.\<close>

definition concat_js :: "jsval list \<Rightarrow> jsval \<Rightarrow> jsval list" where
  "concat_js acc v = (case v of JArr xs \<Rightarrow> acc @ xs | _ \<Rightarrow> acc @ [v])"

text \<open>
  \<^verbatim>\<open>array.reduce(f, init)\<close> with a callback that may throw: the first throw ends the
  reduction.
\<close>

fun reduce :: "('b \<Rightarrow> 'a \<Rightarrow> thrown + 'b) \<Rightarrow> 'a list \<Rightarrow> 'b \<Rightarrow> thrown + 'b" where
  "reduce f [] acc = Inr acc"
| "reduce f (x # xs) acc = (case f acc x of Inl e \<Rightarrow> Inl e | Inr acc' \<Rightarrow> reduce f xs acc')"

lemma reduce_cong [fundef_cong]:
  "xs = ys \<Longrightarrow> a = b \<Longrightarrow> (\<And>acc x. x \<in> set ys \<Longrightarrow> f acc x = g acc x) \<Longrightarrow>
   reduce f xs a = reduce g ys b"
  by (induction ys arbitrary: xs a b) (auto split: sum.splits)

lemma size_map_of:
  "map_of kvs k = Some v \<Longrightarrow> size v < Suc (size_list (size_prod (\<lambda>_. 0) size) kvs)"
  by (induction kvs) (auto split: if_splits)

lemma size_get_prop:
  "get_prop v k = Inr (JArr ys) \<Longrightarrow> size_list size ys < size v"
  by (cases v) (auto simp: get_prop_def split: option.splits dest: size_map_of)

lemma size_member: "c \<in> set xs \<Longrightarrow> f c < size_list f xs"
  by (induction xs) auto

section \<open>Flattening a table of contents\<close>

text \<open>
  \<^verbatim>\<open>
  private flattenArray(array: any[], title: string): any[] {
    try {
      return array.reduce((acc, val) => Array.isArray(val.sections)
        ? acc.concat(val).concat(this.flattenArray(val.sections, title))
        : acc.concat(val), []);
    } catch (e) {
      throw localize('Invalid toc.yml', 'Error: {0} has an incorrect toc.yml file', title);
    }
  }
  \<close>
  The argument is whatever the YAML file loaded to: on anything but an array,
  \<^verbatim>\<open>array.reduce\<close> is not callable and the \<^verbatim>\<open>catch\<close> rethrows the localized string, as
  it does when an entry is \<^verbatim>\<open>null\<close> and \<^verbatim>\<open>val.sections\<close> throws.
\<close>

definition invalid_toc :: "jsval \<Rightarrow> thrown" where
  "invalid_toc title =
     Throw_String
       (Localized ''Invalid toc.yml'' ''Error: {0} has an incorrect toc.yml file'' [title])"

function (sequential) flattenArray :: "jsval \<Rightarrow> jsval \<Rightarrow> thrown + jsval list" where
  "flattenArray (JArr xs) title =
     (case reduce
             (\<lambda>acc val.
                case get_prop val ''sections'' of
                  Inl e \<Rightarrow> Inl e
                | Inr (JArr ys) \<Rightarrow>
                    (case flattenArray (JArr ys) title of
                       Inl e \<Rightarrow> Inl e
                     | Inr sub \<Rightarrow> Inr (concat_js (concat_js acc val) (JArr sub)))
                | Inr _ \<Rightarrow> Inr (concat_js acc val))
             xs []
      of Inl e \<Rightarrow> Inl (invalid_toc title)
       | Inr out \<Rightarrow> Inr out)"
| "flattenArray _ title = Inl (invalid_toc title)"
  by pat_completeness auto
termination
proof (relation "measure (\<lambda>(a, t). size a)")
  show "wf (measure (\<lambda>(a, t). size a))" by simp
next
  fix title :: jsval and xs ys :: "jsval list" and val :: jsval and acc :: "jsval list"
    and y :: jsval
  assume "val \<in> set xs" "get_prop val ''sections'' = Inr y" "y = JArr ys"
  then have "size_list size ys < size val" "size val \<le> size_list size xs"
    by (auto dest: size_get_prop simp: size_list_estimation')
  then show "((JArr ys, title), (JArr xs, title)) \<in> measure (\<lambda>(a, t). size a)"
    by simp
qed

declare flattenArray.simps [simp del]

text \<open>
  The vocabulary of the claim. The children of a node are the entries of its
  \<^verbatim>\<open>sections\<close> when that is a list. A node is well formed when it is a mapping whose
  \<^verbatim>\<open>sections\<close> is absent or a list of well-formed nodes. \<open>preorder\<close> is the
  traversal in the specification's words: a node, then recursively its own sections,
  then its later siblings. \<open>descendant p d\<close> holds when \<open>d\<close> lies strictly below
  \<open>p\<close>; \<open>in_forest xs v\<close> when \<open>v\<close> is a node of the document \<open>xs\<close>.
\<close>

definition children :: "jsval \<Rightarrow> jsval list" where
  "children v = (case get_prop v ''sections'' of Inr (JArr ys) \<Rightarrow> ys | _ \<Rightarrow> [])"

lemma size_list_children: "size_list size (children v) \<le> size v"
proof (cases "\<exists>ys. get_prop v ''sections'' = Inr (JArr ys)")
  case True
  then obtain ys where g: "get_prop v ''sections'' = Inr (JArr ys)" by blast
  then have "children v = ys" by (simp add: children_def)
  with size_get_prop [OF g] show ?thesis by simp
next
  case False
  then have "children v = []"
    by (auto simp: children_def split: sum.splits jsval.splits)
  then show ?thesis by simp
qed

function (sequential) valid_node :: "jsval \<Rightarrow> bool" where
  "valid_node (JObj kvs) =
     (case map_of kvs ''sections'' of
        None \<Rightarrow> True
      | Some (JArr ys) \<Rightarrow> list_all valid_node ys
      | Some _ \<Rightarrow> False)"
| "valid_node _ = False"
  by pat_completeness auto
termination
proof (relation "measure size")
  show "wf (measure size)" by simp
next
  fix z :: jsval and kvs :: "(string \<times> jsval) list" and s :: jsval and ys :: "jsval list"
  assume "map_of kvs ''sections'' = Some s" "s = JArr ys" "z \<in> set ys"
  then have "size s < size (JObj kvs)" "size z \<le> size_list size ys"
    by (auto dest: size_map_of simp: size_list_estimation')
  with \<open>s = JArr ys\<close> show "(z, JObj kvs) \<in> measure size" by simp
qed

declare valid_node.simps [simp del]

function preorder :: "jsval list \<Rightarrow> jsval list" where
  "preorder [] = []"
| "preorder (v # vs) = v # preorder (children v) @ preorder vs"
  by pat_completeness auto
termination
proof (relation "measure (size_list size)")
  show "wf (measure (size_list size))" by simp
next
  fix v :: jsval and vs :: "jsval list"
  show "(children v, v # vs) \<in> measure (size_list size)"
    using size_list_children [of v] by simp
next
  fix v :: jsval and vs :: "jsval list"
  show "(vs, v # vs) \<in> measure (size_list size)" by simp
qed

inductive descendant :: "jsval \<Rightarrow> jsval \<Rightarrow> bool" where
  child: "c \<in> set (children p) \<Longrightarrow> descendant p c"
| deeper: "descendant p m \<Longrightarrow> c \<in> set (children m) \<Longrightarrow> descendant p c"

definition in_forest :: "jsval list \<Rightarrow> jsval \<Rightarrow> bool" where
  "in_forest xs v \<longleftrightarrow> v \<in> set xs \<or> (\<exists>r \<in> set xs. descendant r v)"

text \<open>The scenario document of the specification: Intro with one section, Setup.\<close>

definition toc_setup :: jsval where
  "toc_setup = JObj [(''title'', JStr ''Setup''), (''url'', JStr ''setup'')]"

definition toc_intro :: jsval where
  "toc_intro =
     JObj [(''title'', JStr ''Intro''), (''url'', JStr ''intro''),
           (''sections'', JArr [toc_setup])]"

subsection \<open>Well-formed nodes\<close>

lemma valid_node_cases:
  assumes "valid_node v"
  shows "(get_prop v ''sections'' = Inr JUndefined \<and> children v = []) \<or>
         (get_prop v ''sections'' = Inr (JArr (children v)) \<and>
          list_all valid_node (children v))"
  using assms
  by (cases v)
     (auto simp: valid_node.simps get_prop_def children_def split: jsval.splits option.splits)

lemma valid_node_obj: "valid_node v \<Longrightarrow> \<exists>kvs. v = JObj kvs"
  by (cases v) (auto simp: valid_node.simps)

lemma concat_js_obj: "valid_node v \<Longrightarrow> concat_js acc v = acc @ [v]"
  by (auto simp: concat_js_def dest: valid_node_obj)

lemma valid_children: "valid_node v \<Longrightarrow> list_all valid_node (children v)"
  using valid_node_cases [of v] by auto

lemma valid_descendant: "descendant r d \<Longrightarrow> valid_node r \<Longrightarrow> valid_node d"
  by (induction rule: descendant.induct) (auto dest!: valid_children simp: list_all_iff)

subsection \<open>The reduction computes the traversal\<close>

lemma reduce_flatten_step:
  assumes "\<And>v. v \<in> set xs \<Longrightarrow> valid_node v"
    and "\<And>v. v \<in> set xs \<Longrightarrow>
           flattenArray (JArr (children v)) title = Inr (preorder (children v))"
  shows "reduce
          (\<lambda>acc val.
             case get_prop val ''sections'' of
               Inl e \<Rightarrow> Inl e
             | Inr (JArr ys) \<Rightarrow>
                 (case flattenArray (JArr ys) title of
                    Inl e \<Rightarrow> Inl e
                  | Inr sub \<Rightarrow> Inr (concat_js (concat_js acc val) (JArr sub)))
             | Inr _ \<Rightarrow> Inr (concat_js acc val))
          xs acc = Inr (acc @ preorder xs)"
  using assms
proof (induction xs arbitrary: acc)
  case Nil
  then show ?case by simp
next
  case (Cons v vs)
  have v: "valid_node v" using Cons.prems(1) by simp
  have fl: "flattenArray (JArr (children v)) title = Inr (preorder (children v))"
    using Cons.prems(2) by simp
  from valid_node_cases [OF v] show ?case
  proof
    assume "get_prop v ''sections'' = Inr JUndefined \<and> children v = []"
    then show ?thesis
      using Cons.IH [of "acc @ [v]"] Cons.prems v by (simp add: concat_js_obj)
  next
    assume "get_prop v ''sections'' = Inr (JArr (children v)) \<and>
            list_all valid_node (children v)"
    then show ?thesis
      using Cons.IH [of "acc @ [v] @ preorder (children v)"] Cons.prems v fl
      by (simp add: concat_js_obj) (simp add: concat_js_def)
  qed
qed

lemma flattenArray_preorder:
  "list_all valid_node xs \<Longrightarrow> flattenArray (JArr xs) title = Inr (preorder xs)"
proof (induction xs rule: measure_induct_rule [where f = "size_list size"])
  case (less xs)
  have "flattenArray (JArr (children v)) title = Inr (preorder (children v))"
    if "v \<in> set xs" for v
  proof -
    have "valid_node v" using less.prems that by (simp add: list_all_iff)
    then have "list_all valid_node (children v)" by (rule valid_children)
    moreover have "size_list size (children v) < size_list size xs"
      using size_list_children [of v] size_member [OF that, of size] by simp
    ultimately show ?thesis by (rule less.IH [rotated])
  qed
  moreover have "valid_node v" if "v \<in> set xs" for v
    using less.prems that by (simp add: list_all_iff)
  ultimately have "reduce
          (\<lambda>acc val.
             case get_prop val ''sections'' of
               Inl e \<Rightarrow> Inl e
             | Inr (JArr ys) \<Rightarrow>
                 (case flattenArray (JArr ys) title of
                    Inl e \<Rightarrow> Inl e
                  | Inr sub \<Rightarrow> Inr (concat_js (concat_js acc val) (JArr sub)))
             | Inr _ \<Rightarrow> Inr (concat_js acc val))
          xs [] = Inr ([] @ preorder xs)"
    by (intro reduce_flatten_step) auto
  then show ?case
    by (simp add: flattenArray.simps)
qed

subsection \<open>Every subtree is one block of the traversal\<close>

lemma preorder_append: "preorder (xs @ ys) = preorder xs @ preorder ys"
  by (induction xs) auto

lemma preorder_block_member:
  assumes "v \<in> set xs"
  shows "\<exists>pre post. preorder xs = pre @ v # preorder (children v) @ post"
proof -
  from assms obtain as bs where "xs = as @ v # bs" by (auto simp: in_set_conv_decomp)
  then have "preorder xs = preorder as @ v # preorder (children v) @ preorder bs"
    by (simp add: preorder_append)
  then show ?thesis by blast
qed

lemma preorder_block_descendant:
  "descendant r v \<Longrightarrow>
   \<exists>pre post. preorder (children r) = pre @ v # preorder (children v) @ post"
proof (induction rule: descendant.induct)
  case (child c p)
  then show ?case by (rule preorder_block_member)
next
  case (deeper p m c)
  then obtain pre post where
    1: "preorder (children p) = pre @ m # preorder (children m) @ post"
    by blast
  from deeper obtain pre' post' where
    2: "preorder (children m) = pre' @ c # preorder (children c) @ post'"
    using preorder_block_member by blast
  have "preorder (children p) = (pre @ m # pre') @ c # preorder (children c) @ (post' @ post)"
    by (simp add: 1 2)
  then show ?case by blast
qed

lemma preorder_block:
  assumes "in_forest xs v"
  shows "\<exists>pre post. preorder xs = pre @ v # preorder (children v) @ post"
proof (cases "v \<in> set xs")
  case True
  then show ?thesis by (rule preorder_block_member)
next
  case False
  with assms obtain r where r: "r \<in> set xs" "descendant r v"
    by (auto simp: in_forest_def)
  from preorder_block_member [OF r(1)] obtain pre post where
    1: "preorder xs = pre @ r # preorder (children r) @ post" by blast
  from preorder_block_descendant [OF r(2)] obtain pre' post' where
    2: "preorder (children r) = pre' @ v # preorder (children v) @ post'" by blast
  have "preorder xs = (pre @ r # pre') @ v # preorder (children v) @ (post' @ post)"
    by (simp add: 1 2)
  then show ?thesis by blast
qed

lemma descendant_below_child:
  "descendant r d \<Longrightarrow> r \<in> set (children v) \<Longrightarrow> descendant v d"
  by (induction rule: descendant.induct) (blast intro: descendant.intros)+

lemma descendant_iff_forest: "descendant v d \<longleftrightarrow> in_forest (children v) d"
proof
  show "descendant v d \<Longrightarrow> in_forest (children v) d"
    by (induction rule: descendant.induct) (auto simp: in_forest_def intro: descendant.intros)
  show "in_forest (children v) d \<Longrightarrow> descendant v d"
    by (auto simp: in_forest_def intro: descendant.child descendant_below_child)
qed

lemma set_preorder: "set (preorder xs) = {v. in_forest xs v}"
proof (induction xs rule: preorder.induct)
  case 1
  show ?case by (simp add: in_forest_def)
next
  case (2 v vs)
  have "in_forest (v # vs) d \<longleftrightarrow> d = v \<or> in_forest (children v) d \<or> in_forest vs d" for d
    unfolding descendant_iff_forest [symmetric] by (auto simp: in_forest_def)
  with 2 show ?case by auto
qed

lemma set_preorder_children: "set (preorder (children v)) = {d. descendant v d}"
  by (simp add: set_preorder descendant_iff_forest)

text \<open>
  C1. For a document whose nodes each have \<^verbatim>\<open>sections\<close> absent or a list,
  \<^verbatim>\<open>flattenArray\<close> returns the depth-first pre-order traversal. Every node \<open>v\<close> of the
  document sits in the output directly in front of the flattening of its own sections,
  and that block holds exactly the descendants of \<open>v\<close>: a parent precedes all its
  descendants, and each subtree is contiguous.
\<close>

theorem flattenArray_preorder_blocks:
  assumes "list_all valid_node xs"
  shows "\<exists>out. flattenArray (JArr xs) title = Inr out \<and> out = preorder xs \<and>
           (\<forall>v. in_forest xs v \<longrightarrow>
              (\<exists>pre sub post. out = pre @ v # sub @ post \<and>
                 flattenArray (JArr (children v)) title = Inr sub \<and>
                 set sub = {d. descendant v d}))"
proof -
  have valid: "valid_node v" if "in_forest xs v" for v
    using that assms by (auto simp: in_forest_def list_all_iff dest: valid_descendant)
  have "\<exists>pre sub post. preorder xs = pre @ v # sub @ post \<and>
          flattenArray (JArr (children v)) title = Inr sub \<and> set sub = {d. descendant v d}"
    if "in_forest xs v" for v
  proof -
    from preorder_block [OF that] obtain pre post where
      "preorder xs = pre @ v # preorder (children v) @ post" by blast
    moreover have "flattenArray (JArr (children v)) title = Inr (preorder (children v))"
      using valid [OF that] by (intro flattenArray_preorder valid_children)
    ultimately show ?thesis using set_preorder_children by blast
  qed
  with flattenArray_preorder [OF assms, of title] show ?thesis by blast
qed

theorem flattenArray_preorder_blocks_witness:
  "list_all valid_node [toc_intro] \<and>
   flattenArray (JArr [toc_intro]) (JStr ''Book'') = Inr [toc_intro, toc_setup]"
proof -
  have h: "list_all valid_node [toc_intro]"
    by (simp add: toc_intro_def toc_setup_def valid_node.simps)
  have p: "preorder [toc_intro] = [toc_intro, toc_setup]"
    by (simp add: children_def get_prop_def toc_intro_def toc_setup_def)
  from flattenArray_preorder_blocks [OF h, of "JStr ''Book''"] p h show ?thesis
    by auto
qed

section \<open>The book tree provider\<close>

text \<open>
  What the provider asks of its surroundings: Node's \<^verbatim>\<open>path\<close> and \<^verbatim>\<open>fs\<close>, the YAML
  loader, \<^verbatim>\<open>fast-glob\<close>, the extension context and the notebook configuration. They
  are parameters of the model. \<^verbatim>\<open>readFileSync\<close>, \<^verbatim>\<open>safeLoad\<close> and \<^verbatim>\<open>glob\<close> can
  fail; \<open>maxBookSearchDepth\<close> is the configured value, \<open>None\<close> when it is unset.
\<close>

record node_path =
  path_join :: "string list \<Rightarrow> string"
  path_dirname :: "string \<Rightarrow> string"
  path_basename :: "string \<Rightarrow> string"

record host = node_path +
  existsSync :: "string \<Rightarrow> bool"
  readFileSync :: "string \<Rightarrow> js_error + string"
  safeLoad :: "string \<Rightarrow> js_error + jsval"
  asAbsolutePath :: "string \<Rightarrow> string"
  glob :: "string \<Rightarrow> int option \<Rightarrow> thrown + string list"
  maxBookSearchDepth :: "int option"

datatype BookTreeItemType = Book | ExternalLink | Notebook | Markdown

datatype TreeItemCollapsibleState = Collapsed | Expanded

text \<open>
  Modelled from the spec: the class \<^verbatim>\<open>BookTreeItem\<close> (\<^verbatim>\<open>./bookTreeItem\<close>) is not among
  the sources. A node carries its title, the book's root directory, the flattened
  outline of the owning book, the TOC subtree of the node and an icon pair; the record
  holds exactly the fields the provider passes to the constructor.
\<close>

record BookTreeItem =
  title :: jsval
  root :: string
  tableOfContents :: "jsval list"
  page :: jsval
  item_type :: BookTreeItemType
  treeItemCollapsibleState :: TreeItemCollapsibleState
  untitled :: bool
  light :: string
  dark :: string

text \<open>
  The provider's fields, and the two effects on the host window that the claims speak
  of: \<open>shown\<close> lists the \<^verbatim>\<open>showErrorMessage\<close> calls, \<open>contexts\<close> the
  \<^verbatim>\<open>setContext\<close> commands, \<open>readAllFired\<close> counts \<^verbatim>\<open>_onReadAllTOCFiles.fire()\<close>.
\<close>

record provider =
  tableOfContentPaths :: "string list"
  allNotebooks :: "string \<rightharpoonup> BookTreeItem"
  errorMessage :: "message option"
  openAsUntitled :: bool
  bookPath :: "string option"
  shown :: "message list"
  contexts :: "(string \<times> bool) list"
  readAllFired :: nat

subsection \<open>getSections\<close>

text \<open>
  \<^verbatim>\<open>sections[i].url.concat(suffix)\<close> as an argument of \<^verbatim>\<open>path.join\<close>, for a truthy
  \<^verbatim>\<open>url\<close>: a string is extended; an array yields an array, which \<^verbatim>\<open>path.join\<close>
  refuses; any other value has no \<^verbatim>\<open>concat\<close>. Both failures are \<^verbatim>\<open>TypeError\<close>s.
\<close>

definition str_concat :: "jsval \<Rightarrow> string \<Rightarrow> thrown + string" where
  "str_concat v suffix =
     (case v of JStr s \<Rightarrow> Inr (s @ suffix) | _ \<Rightarrow> Inl (Throw_Error TypeError))"

text \<open>A second read of a property of a value that has already been read from.\<close>

definition field :: "jsval \<Rightarrow> string \<Rightarrow> jsval" where
  "field v k = (case get_prop v k of Inr x \<Rightarrow> x | Inl _ \<Rightarrow> JUndefined)"

definition section_item ::
  "host \<Rightarrow> provider \<Rightarrow> jsval list \<Rightarrow> string \<Rightarrow> jsval \<Rightarrow> BookTreeItemType \<Rightarrow> string \<Rightarrow> string
   \<Rightarrow> BookTreeItem" where
  "section_item h st toc rootp sec ty l d =
     \<lparr> title = field sec ''title'', root = rootp, tableOfContents = toc, page = sec,
       item_type = ty, treeItemCollapsibleState = Collapsed, untitled = openAsUntitled st,
       light = asAbsolutePath h l, dark = asAbsolutePath h d \<rparr>"

definition missingFileError :: "jsval \<Rightarrow> message" where
  "missingFileError t = Localized ''missingFileError'' ''Missing file : {0}'' [t]"

definition pathToNotebook :: "host \<Rightarrow> string \<Rightarrow> string \<Rightarrow> string" where
  "pathToNotebook h rootp u = path_join h [rootp, ''content'', u @ ''.ipynb'']"

definition pathToMarkdown :: "host \<Rightarrow> string \<Rightarrow> string \<Rightarrow> string" where
  "pathToMarkdown h rootp u = path_join h [rootp, ''content'', u @ ''.md'']"

text \<open>
  The body of the loop of \<^verbatim>\<open>getSections\<close> for one entry \<^verbatim>\<open>sections[i]\<close>: the nodes it
  pushes (none or one) and the provider afterwards, or the value it throws.
\<close>

definition getSection ::
  "host \<Rightarrow> jsval list \<Rightarrow> string \<Rightarrow> jsval \<Rightarrow> provider \<Rightarrow> (thrown + BookTreeItem list) \<times> provider"
  where
  "getSection h toc rootp sec st =
     (case get_prop sec ''url'' of
        Inl e \<Rightarrow> (Inl e, st)
      | Inr url \<Rightarrow>
          if truthy url then
            if truthy (field sec ''external'') then
              (Inr [section_item h st toc rootp sec ExternalLink
                      ''resources/light/link.svg'' ''resources/dark/link_inverse.svg''], st)
            else
              (case str_concat url ''.ipynb'' of
                 Inl e \<Rightarrow> (Inl e, st)
               | Inr nb \<Rightarrow>
                   (case str_concat url ''.md'' of
                      Inl e \<Rightarrow> (Inl e, st)
                    | Inr md \<Rightarrow>
                        let toNotebook = path_join h [rootp, ''content'', nb];
                            toMarkdown = path_join h [rootp, ''content'', md]
                        in
                          if existsSync h toNotebook then
                            let notebook = section_item h st toc rootp sec Notebook
                                  ''resources/light/notebook.svg''
                                  ''resources/dark/notebook_inverse.svg'';
                                st1 = st\<lparr>allNotebooks := (allNotebooks st)(toNotebook \<mapsto> notebook)\<rparr>;
                                st2 = (if openAsUntitled st
                                       then st1\<lparr>allNotebooks :=
                                              (allNotebooks st1)(path_basename h toNotebook \<mapsto> notebook)\<rparr>
                                       else st1)
                            in (Inr [notebook], st2)
                          else if existsSync h toMarkdown then
                            (Inr [section_item h st toc rootp sec Markdown
                                    ''resources/light/markdown.svg''
                                    ''resources/dark/markdown_inverse.svg''], st)
                          else
                            let error = missingFileError (field sec ''title'')
                            in (Inr [], st\<lparr>errorMessage := Some error,
                                          shown := shown st @ [error]\<rparr>)))
          else (Inr [], st))"

fun getSections_loop ::
  "host \<Rightarrow> jsval list \<Rightarrow> string \<Rightarrow> jsval list \<Rightarrow> BookTreeItem list \<Rightarrow> provider
   \<Rightarrow> (thrown + BookTreeItem list) \<times> provider" where
  "getSections_loop h toc rootp [] notebooks st = (Inr notebooks, st)"
| "getSections_loop h toc rootp (sec # rest) notebooks st =
     (case getSection h toc rootp sec st of
        (Inl e, st') \<Rightarrow> (Inl e, st')
      | (Inr new, st') \<Rightarrow> getSections_loop h toc rootp rest (notebooks @ new) st')"

definition getSections ::
  "host \<Rightarrow> jsval list \<Rightarrow> jsval list \<Rightarrow> string \<Rightarrow> provider
   \<Rightarrow> (thrown + BookTreeItem list) \<times> provider" where
  "getSections h toc sections rootp st = getSections_loop h toc rootp sections [] st"

text \<open>
  A leaf of the kind the claims on \<^verbatim>\<open>getSections\<close> speak of: an entry whose \<^verbatim>\<open>url\<close> is
  the non-empty string \<open>u\<close> and whose \<^verbatim>\<open>external\<close> is unset (or otherwise falsy).
\<close>

definition url_leaf :: "jsval \<Rightarrow> string \<Rightarrow> bool" where
  "url_leaf sec u \<longleftrightarrow>
     get_prop sec ''url'' = Inr (JStr u) \<and> u \<noteq> [] \<and> \<not> truthy (field sec ''external'')"

text \<open>
  Sequencing two runs of the loop: the second starts from the provider the first left,
  and a throw of either ends the whole.
\<close>

definition then_sections ::
  "(thrown + BookTreeItem list) \<times> provider
   \<Rightarrow> (provider \<Rightarrow> (thrown + BookTreeItem list) \<times> provider)
   \<Rightarrow> (thrown + BookTreeItem list) \<times> provider" where
  "then_sections r k =
     (case r of
        (Inl e, st1) \<Rightarrow> (Inl e, st1)
      | (Inr a, st1) \<Rightarrow>
          (case k st1 of
             (Inl e, st2) \<Rightarrow> (Inl e, st2)
           | (Inr b, st2) \<Rightarrow> (Inr (a @ b), st2)))"

text \<open>
  The nodes \<^verbatim>\<open>getSections\<close> builds for an entry that resolves to a notebook or to a
  markdown file, and the index after \<^verbatim>\<open>this._allNotebooks.set\<close> has registered the
  notebook under its path and, in untitled mode, under its base name too.
\<close>

definition notebook_item :: "host \<Rightarrow> provider \<Rightarrow> jsval list \<Rightarrow> string \<Rightarrow> jsval \<Rightarrow> BookTreeItem" where
  "notebook_item h st toc rootp sec =
     section_item h st toc rootp sec Notebook
       ''resources/light/notebook.svg'' ''resources/dark/notebook_inverse.svg''"

definition markdown_item :: "host \<Rightarrow> provider \<Rightarrow> jsval list \<Rightarrow> string \<Rightarrow> jsval \<Rightarrow> BookTreeItem" where
  "markdown_item h st toc rootp sec =
     section_item h st toc rootp sec Markdown
       ''resources/light/markdown.svg'' ''resources/dark/markdown_inverse.svg''"

definition index_notebook :: "host \<Rightarrow> string \<Rightarrow> BookTreeItem \<Rightarrow> provider \<Rightarrow> provider" where
  "index_notebook h p it st =
     (if openAsUntitled st
      then st\<lparr>allNotebooks := (allNotebooks st)(p \<mapsto> it, path_basename h p \<mapsto> it)\<rparr>
      else st\<lparr>allNotebooks := (allNotebooks st)(p \<mapsto> it)\<rparr>)"

text \<open>
  The provider's fields as their initialisers leave them, with \<^verbatim>\<open>_openAsUntitled\<close> as
  given to the constructor: the state before the constructor's scan for TOC files and
  its \<^verbatim>\<open>setContext\<close> command have run.
\<close>

definition init_provider :: "bool \<Rightarrow> provider" where
  "init_provider asUntitled =
     \<lparr> tableOfContentPaths = [], allNotebooks = Map.empty, errorMessage = None,
       openAsUntitled = asUntitled, bookPath = None, shown = [], contexts = [],
       readAllFired = 0 \<rparr>"

text \<open>The state after the missing file of entry \<open>sec\<close> has been reported.\<close>

definition report_missing :: "jsval \<Rightarrow> provider \<Rightarrow> provider" where
  "report_missing sec st =
     st\<lparr>errorMessage := Some (missingFileError (field sec ''title'')),
        shown := shown st @ [missingFileError (field sec ''title'')]\<rparr>"

subsection \<open>A concrete host\<close>

text \<open>
  A small POSIX host for the concrete instances below: paths are joined with a slash
  (the segments used are already normal), the disk is a table from path to content, and
  the YAML loader is a table from file content to loaded value that refuses every other
  text. Of the five books on the disk, the second has a TOC file that does not parse,
  the fourth has no \<^verbatim>\<open>_config.yml\<close>, and the TOC file of the fifth holds a mapping
  instead of a list.
\<close>

fun join_segments :: "string list \<Rightarrow> string" where
  "join_segments [] = ''.''"
| "join_segments [x] = x"
| "join_segments (x # y # ys) = x @ ''/'' @ join_segments (y # ys)"

definition strip_slashes :: "string \<Rightarrow> string" where
  "strip_slashes p = rev (dropWhile (\<lambda>c. c = CHR ''/'') (rev p))"

definition posix_basename :: "string \<Rightarrow> string" where
  "posix_basename p = rev (takeWhile (\<lambda>c. c \<noteq> CHR ''/'') (rev (strip_slashes p)))"

definition posix_dirname :: "string \<Rightarrow> string" where
  "posix_dirname p =
     (let d = rev (dropWhile (\<lambda>c. c \<noteq> CHR ''/'') (rev (strip_slashes p)))
      in if d = [] then ''.'' else if strip_slashes d = [] then ''/'' else strip_slashes d)"

definition toc_ghost :: jsval where
  "toc_ghost = JObj [(''title'', JStr ''Ghost''), (''url'', JStr ''ghost'')]"

definition demo_yaml :: "(string \<times> jsval) list" where
  "demo_yaml =
     [(''title: One'', JObj [(''title'', JStr ''One'')]),
      (''title: Two'', JObj [(''title'', JStr ''Two'')]),
      (''title: Three'', JObj [(''title'', JStr ''Three'')]),
      (''title: Five'', JObj [(''title'', JStr ''Five'')]),
      (''toc one'', JArr [toc_intro]),
      (''toc three'', JArr [toc_setup, toc_ghost])]"

definition demo_disk :: "(string \<times> string) list" where
  "demo_disk =
     [(''/ws/b1/_config.yml'', ''title: One''),
      (''/ws/b1/_data/toc.yml'', ''toc one''),
      (''/ws/b1/content/intro.ipynb'', ''{}''),
      (''/ws/b1/content/intro.md'', ''# Intro''),
      (''/ws/b1/content/setup.md'', ''# Setup''),
      (''/ws/b2/_config.yml'', ''title: Two''),
      (''/ws/b2/_data/toc.yml'', ''- title: [''),
      (''/ws/b3/_config.yml'', ''title: Three''),
      (''/ws/b3/_data/toc.yml'', ''toc three''),
      (''/ws/b4/_data/toc.yml'', ''toc one''),
      (''/ws/b5/_config.yml'', ''title: Five''),
      (''/ws/b5/_data/toc.yml'', ''title: Five'')]"

definition demo_tocs :: "string list" where
  "demo_tocs = [''/ws/b1/_data/toc.yml'', ''/ws/b2/_data/toc.yml'', ''/ws/b3/_data/toc.yml'']"

definition demo_host :: host where
  "demo_host =
     \<lparr> path_join = join_segments,
       path_dirname = posix_dirname,
       path_basename = posix_basename,
       existsSync = (\<lambda>p. p \<in> set (map fst demo_disk)),
       readFileSync = (\<lambda>p. case map_of demo_disk p of None \<Rightarrow> Inl (ENOENT p) | Some t \<Rightarrow> Inr t),
       safeLoad = (\<lambda>t. case map_of demo_yaml t of None \<Rightarrow> Inl (YAMLException t) | Some v \<Rightarrow> Inr v),
       asAbsolutePath = (\<lambda>p. ''/ext/'' @ p),
       glob = (\<lambda>p deep.
          if p = ''/ws/**/_data/toc.yml'' then Inr demo_tocs else Inr []),
       maxBookSearchDepth = None \<rparr>"


subsection \<open>Properties of getSections\<close>

lemma getSections_loop_acc:
  "getSections_loop h toc rootp secs acc st =
     then_sections (Inr acc, st) (getSections_loop h toc rootp secs [])"
proof (induction secs arbitrary: acc st)
  case Nil
  show ?case by (simp add: then_sections_def)
next
  case (Cons sec rest)
  obtain r st' where gs: "getSection h toc rootp sec st = (r, st')"
    by (cases "getSection h toc rootp sec st")
  show ?case
  proof (cases r)
    case (Inl e)
    with gs show ?thesis by (simp add: then_sections_def)
  next
    case (Inr new)
    obtain q st'' where rest: "getSections_loop h toc rootp rest [] st' = (q, st'')"
      by (cases "getSections_loop h toc rootp rest [] st'")
    have 1: "getSections_loop h toc rootp rest (acc @ new) st' =
               then_sections (Inr (acc @ new), st') (getSections_loop h toc rootp rest [])"
      by (rule Cons.IH)
    have 2: "getSections_loop h toc rootp rest new st' =
               then_sections (Inr new, st') (getSections_loop h toc rootp rest [])"
      by (rule Cons.IH)
    from gs Inr rest show ?thesis
      by (cases q) (simp_all add: 1 2 then_sections_def)
  qed
qed

lemma getSections_append:
  "getSections h toc (xs @ ys) rootp st =
     then_sections (getSections h toc xs rootp st) (getSections h toc ys rootp)"
  unfolding getSections_def
proof (induction xs arbitrary: st)
  case Nil
  show ?case
    by (cases "getSections_loop h toc rootp ys [] st")
       (auto simp: then_sections_def split: sum.splits)
next
  case (Cons sec rest)
  obtain r st' where gs: "getSection h toc rootp sec st = (r, st')"
    by (cases "getSection h toc rootp sec st")
  show ?case
  proof (cases r)
    case (Inl e)
    with gs show ?thesis by (simp add: then_sections_def)
  next
    case (Inr new)
    obtain q1 s1 where r1: "getSections_loop h toc rootp rest [] st' = (q1, s1)"
      by (cases "getSections_loop h toc rootp rest [] st'")
    obtain q2 s2 where r2: "getSections_loop h toc rootp ys [] s1 = (q2, s2)"
      by (cases "getSections_loop h toc rootp ys [] s1")
    have acc: "getSections_loop h toc rootp zs new st' =
                 then_sections (Inr new, st') (getSections_loop h toc rootp zs [])" for zs
      by (rule getSections_loop_acc)
    from gs Inr r1 r2 Cons.IH [of st'] show ?thesis
      by (cases q1; cases q2) (simp_all add: acc then_sections_def)
  qed
qed

lemma getSections_single:
  "getSections h toc [sec] rootp st = getSection h toc rootp sec st"
  by (cases "getSection h toc rootp sec st")
     (auto simp: getSections_def split: sum.splits)

lemma truthy_JStr: "truthy (JStr u) \<longleftrightarrow> u \<noteq> []"
  by (simp add: truthy_def)

lemma getSection_missing:
  assumes "url_leaf sec u"
    and "\<not> existsSync h (pathToNotebook h rootp u)"
    and "\<not> existsSync h (pathToMarkdown h rootp u)"
  shows "getSection h toc rootp sec st =
           (Inr [], st\<lparr>errorMessage := Some (missingFileError (field sec ''title'')),
                       shown := shown st @ [missingFileError (field sec ''title'')]\<rparr>)"
  using assms
  by (simp add: getSection_def url_leaf_def truthy_JStr str_concat_def Let_def
      pathToNotebook_def pathToMarkdown_def)

lemma getSection_markdown_only:
  assumes "getSection h toc rootp sec st = (Inr items, st')"
    and "it \<in> set items" and "item_type it = Markdown"
  shows "page it = sec \<and> (\<exists>u. get_prop sec ''url'' = Inr (JStr u) \<and>
           \<not> existsSync h (pathToNotebook h rootp u) \<and> existsSync h (pathToMarkdown h rootp u))"
  using assms
  by (auto simp: getSection_def str_concat_def Let_def
      pathToNotebook_def pathToMarkdown_def section_item_def
      split: sum.splits if_splits jsval.splits)

lemma getSection_page:
  assumes "getSection h toc rootp sec st = (Inr items, st')" and "it \<in> set items"
  shows "page it = sec"
  using assms
  by (auto simp: getSection_def str_concat_def Let_def section_item_def
      split: sum.splits if_splits jsval.splits)

lemma getSections_markdown_only:
  assumes "getSections h toc secs rootp st = (Inr items, st')"
    and "it \<in> set items" and "item_type it = Markdown"
  shows "page it \<in> set secs \<and> (\<exists>u. get_prop (page it) ''url'' = Inr (JStr u) \<and>
           \<not> existsSync h (pathToNotebook h rootp u) \<and> existsSync h (pathToMarkdown h rootp u))"
  using assms
proof (induction secs arbitrary: st items)
  case Nil
  then show ?case by (simp add: getSections_def)
next
  case (Cons sec rest)
  have "getSections h toc ([sec] @ rest) rootp st =
          then_sections (getSection h toc rootp sec st) (getSections h toc rest rootp)"
    by (simp only: getSections_append getSections_single)
  with Cons.prems(1) obtain a s1 b where
    a: "getSection h toc rootp sec st = (Inr a, s1)" and
    b: "getSections h toc rest rootp s1 = (Inr b, st')" and
    items: "items = a @ b"
    by (auto simp: then_sections_def split: prod.splits sum.splits)
  from Cons.prems(2) items consider "it \<in> set a" | "it \<in> set b" by auto
  then show ?case
  proof cases
    case 1
    from getSection_markdown_only [OF a 1 Cons.prems(3)] show ?thesis by auto
  next
    case 2
    from Cons.IH [OF b 2 Cons.prems(3)] show ?thesis by auto
  qed
qed


lemma getSections_around:
  "getSections h toc (pre @ sec # post) rootp st =
     then_sections (getSections h toc pre rootp st)
       (\<lambda>s1. then_sections (getSection h toc rootp sec s1) (getSections h toc post rootp))"
proof -
  have "getSections h toc ([sec] @ post) rootp =
          (\<lambda>s1. then_sections (getSections h toc [sec] rootp s1) (getSections h toc post rootp))"
    by (rule ext) (rule getSections_append)
  then have "getSections h toc (pre @ [sec] @ post) rootp st =
     then_sections (getSections h toc pre rootp st)
       (\<lambda>s1. then_sections (getSections h toc [sec] rootp s1) (getSections h toc post rootp))"
    by (simp only: getSections_append [of h toc pre])
  then show ?thesis by (simp add: getSections_single)
qed

lemma getSection_notebook_eq:
  assumes "url_leaf sec u" and "existsSync h (pathToNotebook h rootp u)"
  shows "getSection h toc rootp sec st =
           (Inr [notebook_item h st toc rootp sec],
            index_notebook h (pathToNotebook h rootp u) (notebook_item h st toc rootp sec) st)"
  using assms
  by (simp add: getSection_def url_leaf_def truthy_JStr str_concat_def Let_def
      pathToNotebook_def notebook_item_def index_notebook_def)

lemma getSection_markdown_eq:
  assumes "url_leaf sec u" and "\<not> existsSync h (pathToNotebook h rootp u)"
    and "existsSync h (pathToMarkdown h rootp u)"
  shows "getSection h toc rootp sec st = (Inr [markdown_item h st toc rootp sec], st)"
  using assms
  by (simp add: getSection_def url_leaf_def truthy_JStr str_concat_def Let_def
      pathToNotebook_def pathToMarkdown_def markdown_item_def)

text \<open>
  C2. Let \<open>sec\<close> be an entry with a \<^verbatim>\<open>url\<close> and \<^verbatim>\<open>external\<close> unset. If the
  notebook file \<^verbatim>\<open><root>/content/<url>.ipynb\<close> exists (whether or not the markdown
  file exists as well), \<^verbatim>\<open>getSections\<close> on the entry returns exactly one node, of
  type Notebook, and registers it in the index; on a list holding the entry the call is
  the run over the entries before it, then that Notebook node, then the run over the
  entries after it. If the notebook file does not exist and the markdown file does, the
  entry yields exactly one node of type Markdown. And whenever a call returns, a node
  it returns for \<open>sec\<close> is of type Markdown only if the notebook file does not exist
  and the markdown file does.
\<close>

theorem getSections_prefers_notebook:
  assumes "url_leaf sec u"
  shows "(existsSync h (pathToNotebook h rootp u) \<longrightarrow>
            getSections h toc [sec] rootp st =
              (Inr [notebook_item h st toc rootp sec],
               index_notebook h (pathToNotebook h rootp u) (notebook_item h st toc rootp sec) st) \<and>
            item_type (notebook_item h st toc rootp sec) = Notebook \<and>
            page (notebook_item h st toc rootp sec) = sec \<and>
            getSections h toc (pre @ sec # post) rootp st =
              then_sections (getSections h toc pre rootp st)
                (\<lambda>s. then_sections
                   (Inr [notebook_item h s toc rootp sec],
                    index_notebook h (pathToNotebook h rootp u) (notebook_item h s toc rootp sec) s)
                   (getSections h toc post rootp))) \<and>
         (\<not> existsSync h (pathToNotebook h rootp u) \<and> existsSync h (pathToMarkdown h rootp u) \<longrightarrow>
            getSections h toc [sec] rootp st = (Inr [markdown_item h st toc rootp sec], st) \<and>
            item_type (markdown_item h st toc rootp sec) = Markdown \<and>
            page (markdown_item h st toc rootp sec) = sec) \<and>
         (\<forall>items st'. getSections h toc (pre @ sec # post) rootp st = (Inr items, st') \<longrightarrow>
            (\<forall>it \<in> set items. page it = sec \<and> item_type it = Markdown \<longrightarrow>
               \<not> existsSync h (pathToNotebook h rootp u) \<and>
               existsSync h (pathToMarkdown h rootp u)))"
proof (intro conjI impI allI ballI)
  assume nb: "existsSync h (pathToNotebook h rootp u)"
  note one = getSection_notebook_eq [OF assms nb]
  show "getSections h toc [sec] rootp st =
              (Inr [notebook_item h st toc rootp sec],
               index_notebook h (pathToNotebook h rootp u) (notebook_item h st toc rootp sec) st)"
    by (simp add: getSections_single one)
  show "item_type (notebook_item h st toc rootp sec) = Notebook"
    by (simp add: notebook_item_def section_item_def)
  show "page (notebook_item h st toc rootp sec) = sec"
    by (simp add: notebook_item_def section_item_def)
  show "getSections h toc (pre @ sec # post) rootp st =
              then_sections (getSections h toc pre rootp st)
                (\<lambda>s. then_sections
                   (Inr [notebook_item h s toc rootp sec],
                    index_notebook h (pathToNotebook h rootp u) (notebook_item h s toc rootp sec) s)
                   (getSections h toc post rootp))"
    by (simp add: getSections_around one)
next
  assume "\<not> existsSync h (pathToNotebook h rootp u) \<and> existsSync h (pathToMarkdown h rootp u)"
  then have md: "getSection h toc rootp sec st = (Inr [markdown_item h st toc rootp sec], st)"
    using getSection_markdown_eq [OF assms] by blast
  show "getSections h toc [sec] rootp st = (Inr [markdown_item h st toc rootp sec], st)"
    by (simp add: getSections_single md)
  show "item_type (markdown_item h st toc rootp sec) = Markdown"
    by (simp add: markdown_item_def section_item_def)
  show "page (markdown_item h st toc rootp sec) = sec"
    by (simp add: markdown_item_def section_item_def)
next
  fix items st' it
  assume run: "getSections h toc (pre @ sec # post) rootp st = (Inr items, st')"
    and it: "it \<in> set items" and "page it = sec \<and> item_type it = Markdown"
  then have p: "page it = sec" and m: "item_type it = Markdown" by auto
  from getSections_markdown_only [OF run it m] p assms
  show "\<not> existsSync h (pathToNotebook h rootp u)" "existsSync h (pathToMarkdown h rootp u)"
    by (auto simp: url_leaf_def)
qed

text \<open>
  C3. Let \<open>sec\<close> be an entry with a \<^verbatim>\<open>url\<close> and \<^verbatim>\<open>external\<close> unset for which
  neither the notebook file nor the markdown file exists. Then \<^verbatim>\<open>getSections\<close> on
  that entry alone returns the empty list and does not throw; the error it records and
  shows is the \<^verbatim>\<open>Missing file : {0}\<close> message with the entry's title as argument; and
  on a list holding the entry the call is the run over the entries before it, followed by
  the run over the entries after it from the state with the error recorded: the
  remaining sections are processed and their nodes returned.
\<close>

theorem getSections_missing_file:
  assumes "url_leaf sec u"
    and "\<not> existsSync h (pathToNotebook h rootp u)"
    and "\<not> existsSync h (pathToMarkdown h rootp u)"
  shows "getSections h toc [sec] rootp st = (Inr [], report_missing sec st) \<and>
         errorMessage (report_missing sec st) =
           Some (Localized ''missingFileError'' ''Missing file : {0}'' [field sec ''title'']) \<and>
         shown (report_missing sec st) =
           shown st @ [Localized ''missingFileError'' ''Missing file : {0}'' [field sec ''title'']] \<and>
         getSections h toc (pre @ sec # post) rootp st =
           then_sections (getSections h toc pre rootp st)
             (\<lambda>s. getSections h toc post rootp (report_missing sec s))"
proof -
  have one: "getSection h toc rootp sec s = (Inr [], report_missing sec s)" for s
    using getSection_missing [OF assms] by (simp add: report_missing_def)
  have "then_sections (Inr [], report_missing sec s) (getSections h toc post rootp) =
          getSections h toc post rootp (report_missing sec s)" for s
    by (cases "getSections h toc post rootp (report_missing sec s)")
       (auto simp: then_sections_def split: sum.splits)
  then show ?thesis
    by (simp add: getSections_around getSections_single one)
       (simp add: report_missing_def missingFileError_def)
qed

lemmas demo_simps =
  getSections_def getSection_def demo_host_def demo_disk_def toc_intro_def toc_setup_def
  toc_ghost_def get_prop_def field_def truthy_def str_concat_def section_item_def
  init_provider_def Let_def url_leaf_def pathToNotebook_def pathToMarkdown_def

theorem getSections_prefers_notebook_witness:
  "url_leaf toc_intro ''intro'' \<and>
   existsSync demo_host (pathToNotebook demo_host ''/ws/b1'' ''intro'') \<and>
   existsSync demo_host (pathToMarkdown demo_host ''/ws/b1'' ''intro'') \<and>
   map item_type (projr (fst (getSections demo_host [] [toc_intro] ''/ws/b1'' (init_provider False))))
     = [Notebook] \<and>
   (\<exists>items st'.
      getSections demo_host [] ([toc_setup] @ toc_intro # [toc_ghost]) ''/ws/b1''
        (init_provider False) = (Inr items, st') \<and>
      map item_type items = [Markdown, Notebook])"
proof -
  have leaf: "url_leaf toc_intro ''intro''"
    by (simp add: demo_simps)
  have nb: "existsSync demo_host (pathToNotebook demo_host ''/ws/b1'' ''intro'')"
    by (simp add: demo_simps)
  have md: "existsSync demo_host (pathToMarkdown demo_host ''/ws/b1'' ''intro'')"
    by (simp add: demo_simps)
  note t = getSections_prefers_notebook
    [OF leaf, of demo_host "''/ws/b1''" "[]" _ "[toc_setup]" "[toc_ghost]", THEN conjunct1, THEN mp, OF nb]
  from t [of "init_provider False"]
  have one: "map item_type (projr (fst (getSections demo_host [] [toc_intro] ''/ws/b1'' (init_provider False))))
     = [Notebook]"
    by simp
  have pre: "\<exists>a s1. getSections demo_host [] [toc_setup] ''/ws/b1'' (init_provider False) = (Inr a, s1) \<and>
      map item_type a = [Markdown]"
    by (simp add: demo_simps)
  then obtain a s1 where
    a: "getSections demo_host [] [toc_setup] ''/ws/b1'' (init_provider False) = (Inr a, s1)"
    and ta: "map item_type a = [Markdown]" by auto
  have post: "\<exists>s2. getSections demo_host [] [toc_ghost] ''/ws/b1'' s = (Inr [], s2)" for s
    by (simp add: demo_simps)
  then obtain s2 where
    b: "getSections demo_host [] [toc_ghost] ''/ws/b1''
          (index_notebook demo_host (pathToNotebook demo_host ''/ws/b1'' ''intro'')
             (notebook_item demo_host s1 [] ''/ws/b1'' toc_intro) s1) = (Inr [], s2)"
    by blast
  from t [of "init_provider False"]
  have "getSections demo_host [] ([toc_setup] @ toc_intro # [toc_ghost]) ''/ws/b1''
        (init_provider False) = (Inr (a @ [notebook_item demo_host s1 [] ''/ws/b1'' toc_intro]), s2)"
    by (simp add: a b then_sections_def)
  moreover have "item_type (notebook_item demo_host s1 [] ''/ws/b1'' toc_intro) = Notebook"
    using t [of s1] by simp
  ultimately have "\<exists>items st'.
      getSections demo_host [] ([toc_setup] @ toc_intro # [toc_ghost]) ''/ws/b1''
        (init_provider False) = (Inr items, st') \<and>
      map item_type items = [Markdown, Notebook]"
    using ta by simp
  with leaf nb md one show ?thesis by simp
qed

theorem getSections_missing_file_witness:
  "url_leaf toc_ghost ''ghost'' \<and>
   \<not> existsSync demo_host (pathToNotebook demo_host ''/ws/b1'' ''ghost'') \<and>
   \<not> existsSync demo_host (pathToMarkdown demo_host ''/ws/b1'' ''ghost'') \<and>
   (\<exists>items st'.
      getSections demo_host [] ([toc_intro] @ toc_ghost # [toc_setup]) ''/ws/b1''
        (init_provider False) = (Inr items, st') \<and>
      map title items = [JStr ''Intro'', JStr ''Setup''] \<and>
      errorMessage st' = Some (Localized ''missingFileError'' ''Missing file : {0}'' [JStr ''Ghost'']))"
proof -
  have leaf: "url_leaf toc_ghost ''ghost''"
    by (simp add: demo_simps)
  have nb: "\<not> existsSync demo_host (pathToNotebook demo_host ''/ws/b1'' ''ghost'')"
    by (simp add: demo_simps)
  have md: "\<not> existsSync demo_host (pathToMarkdown demo_host ''/ws/b1'' ''ghost'')"
    by (simp add: demo_simps)
  have pre: "\<exists>a s1. getSections demo_host [] [toc_intro] ''/ws/b1'' (init_provider False) = (Inr a, s1) \<and>
           map title a = [JStr ''Intro''] \<and> shown s1 = [] \<and> \<not> openAsUntitled s1"
    by (simp add: demo_simps)
  then obtain a s1 where
    a: "getSections demo_host [] [toc_intro] ''/ws/b1'' (init_provider False) = (Inr a, s1)"
    and ta: "map title a = [JStr ''Intro'']" and s1: "shown s1 = []" "\<not> openAsUntitled s1"
    by auto
  have post: "\<exists>b s2. getSections demo_host [] [toc_setup] ''/ws/b1'' (report_missing toc_ghost s1) = (Inr b, s2) \<and>
           map title b = [JStr ''Setup''] \<and> errorMessage s2 = Some (Localized ''missingFileError'' ''Missing file : {0}'' [JStr ''Ghost''])"
    using s1 by (simp add: demo_simps report_missing_def missingFileError_def)
  then obtain b s2 where
    b: "getSections demo_host [] [toc_setup] ''/ws/b1'' (report_missing toc_ghost s1) = (Inr b, s2)"
    and tb: "map title b = [JStr ''Setup'']"
    and e: "errorMessage s2 = Some (Localized ''missingFileError'' ''Missing file : {0}'' [JStr ''Ghost''])"
    by auto
  from getSections_missing_file [OF leaf nb md, of "[]" "init_provider False" "[toc_intro]" "[toc_setup]"]
  have "getSections demo_host [] ([toc_intro] @ toc_ghost # [toc_setup]) ''/ws/b1'' (init_provider False) =
          (Inr (a @ b), s2)"
    by (simp add: a b then_sections_def)
  with leaf nb md ta tb e show ?thesis by auto
qed

subsection \<open>getBooks\<close>

text \<open>
  The body of the \<^verbatim>\<open>try\<close> block of \<^verbatim>\<open>getBooks\<close> for one TOC path: read and load
  \<^verbatim>\<open>_config.yml\<close> beside the book root, read and load the TOC file, then build the
  Book node, which reads \<^verbatim>\<open>config.title\<close> and flattens the outline. Each step can
  throw.
\<close>

definition loadBook :: "host \<Rightarrow> bool \<Rightarrow> string \<Rightarrow> thrown + BookTreeItem" where
  "loadBook h asUntitled contentPath =
     (let rootp = path_dirname h (path_dirname h contentPath) in
      case readFileSync h (path_join h [rootp, ''_config.yml'']) of
        Inl e \<Rightarrow> Inl (Throw_Error e)
      | Inr configText \<Rightarrow>
      (case safeLoad h configText of
        Inl e \<Rightarrow> Inl (Throw_Error e)
      | Inr config \<Rightarrow>
      (case readFileSync h contentPath of
        Inl e \<Rightarrow> Inl (Throw_Error e)
      | Inr tocText \<Rightarrow>
      (case safeLoad h tocText of
        Inl e \<Rightarrow> Inl (Throw_Error e)
      | Inr toc \<Rightarrow>
      (case get_prop config ''title'' of
        Inl e \<Rightarrow> Inl e
      | Inr t \<Rightarrow>
      (case flattenArray toc t of
        Inl e \<Rightarrow> Inl e
      | Inr flat \<Rightarrow>
          Inr \<lparr> title = t, root = rootp, tableOfContents = flat, page = toc,
                item_type = Book, treeItemCollapsibleState = Expanded,
                untitled = asUntitled,
                light = asAbsolutePath h ''resources/light/book.svg'',
                dark = asAbsolutePath h ''resources/dark/book_inverse.svg'' \<rparr>))))))"

text \<open>The \<^verbatim>\<open>catch\<close> block: \<^verbatim>\<open>e instanceof Error ? e.message : e\<close>, recorded and shown.\<close>

definition caught_message :: "thrown \<Rightarrow> message" where
  "caught_message e = (case e of Throw_Error x \<Rightarrow> Message_of x | Throw_String m \<Rightarrow> m)"

definition report_error :: "message \<Rightarrow> provider \<Rightarrow> provider" where
  "report_error m st = st\<lparr>errorMessage := Some m, shown := shown st @ [m]\<rparr>"

fun getBooks_loop ::
  "host \<Rightarrow> string list \<Rightarrow> BookTreeItem list \<Rightarrow> provider \<Rightarrow> BookTreeItem list \<times> provider" where
  "getBooks_loop h [] books st = (books, st)"
| "getBooks_loop h (contentPath # rest) books st =
     (case loadBook h (openAsUntitled st) contentPath of
        Inr book \<Rightarrow> getBooks_loop h rest (books @ [book]) st
      | Inl e \<Rightarrow> getBooks_loop h rest books (report_error (caught_message e) st))"

definition getBooks :: "host \<Rightarrow> provider \<Rightarrow> BookTreeItem list \<times> provider" where
  "getBooks h st = getBooks_loop h (tableOfContentPaths st) [] st"

text \<open>What one TOC path contributes: its book, or the message of its failure.\<close>

definition book_of :: "host \<Rightarrow> bool \<Rightarrow> string \<Rightarrow> BookTreeItem list" where
  "book_of h asUntitled p = (case loadBook h asUntitled p of Inr b \<Rightarrow> [b] | Inl _ \<Rightarrow> [])"

definition failure_of :: "host \<Rightarrow> bool \<Rightarrow> string \<Rightarrow> message list" where
  "failure_of h asUntitled p =
     (case loadBook h asUntitled p of Inr _ \<Rightarrow> [] | Inl e \<Rightarrow> [caught_message e])"

text \<open>Where \<^verbatim>\<open>getBooks\<close> looks for the configuration of the book of a TOC path.\<close>

definition config_path :: "host \<Rightarrow> string \<Rightarrow> string" where
  "config_path h contentPath =
     path_join h [path_dirname h (path_dirname h contentPath), ''_config.yml'']"

lemma openAsUntitled_report_error: "openAsUntitled (report_error m st) = openAsUntitled st"
  by (simp add: report_error_def)

lemma getBooks_loop_books:
  "fst (getBooks_loop h ps books st) = books @ concat (map (book_of h (openAsUntitled st)) ps)"
  by (induction ps arbitrary: books st)
     (auto simp: book_of_def openAsUntitled_report_error split: sum.splits)

lemma getBooks_loop_shown:
  "shown (snd (getBooks_loop h ps books st)) =
     shown st @ concat (map (failure_of h (openAsUntitled st)) ps)"
  by (induction ps arbitrary: books st)
     (auto simp: failure_of_def openAsUntitled_report_error report_error_def split: sum.splits)

lemma getBooks_loop_errorMessage:
  "errorMessage (snd (getBooks_loop h ps books st)) =
     (if concat (map (failure_of h (openAsUntitled st)) ps) = [] then errorMessage st
      else Some (last (concat (map (failure_of h (openAsUntitled st)) ps))))"
proof (induction ps arbitrary: books st)
  case Nil
  show ?case by simp
next
  case (Cons p ps)
  show ?case
  proof (cases "loadBook h (openAsUntitled st) p")
    case (Inr b)
    then have "failure_of h (openAsUntitled st) p = []" by (simp add: failure_of_def)
    with Inr show ?thesis by (simp add: Cons.IH)
  next
    case (Inl e)
    then have "failure_of h (openAsUntitled st) p = [caught_message e]"
      by (simp add: failure_of_def)
    moreover have "errorMessage (report_error (caught_message e) st) = Some (caught_message e)"
      by (simp add: report_error_def)
    ultimately show ?thesis using Inl
      by (simp add: Cons.IH openAsUntitled_report_error)
  qed
qed

lemma loadBook_outcomes:
  "(\<forall>x. readFileSync h (config_path h p) = Inl x \<longrightarrow> loadBook h u p = Inl (Throw_Error x)) \<and>
   (\<forall>ct x. readFileSync h (config_path h p) = Inr ct \<and> safeLoad h ct = Inl x \<longrightarrow>
      loadBook h u p = Inl (Throw_Error x)) \<and>
   (\<forall>ct config.
      readFileSync h (config_path h p) = Inr ct \<and> safeLoad h ct = Inr config \<longrightarrow>
        (\<forall>x. readFileSync h p = Inl x \<longrightarrow> loadBook h u p = Inl (Throw_Error x)) \<and>
        (\<forall>tt x. readFileSync h p = Inr tt \<and> safeLoad h tt = Inl x \<longrightarrow>
           loadBook h u p = Inl (Throw_Error x)) \<and>
        (\<forall>tt toc.
           readFileSync h p = Inr tt \<and> safeLoad h tt = Inr toc \<longrightarrow>
             (\<forall>e. get_prop config ''title'' = Inl e \<longrightarrow> loadBook h u p = Inl e) \<and>
             (\<forall>t e. get_prop config ''title'' = Inr t \<and> flattenArray toc t = Inl e \<longrightarrow>
                loadBook h u p = Inl e) \<and>
             (\<forall>t flat. get_prop config ''title'' = Inr t \<and> flattenArray toc t = Inr flat \<longrightarrow>
                loadBook h u p =
                  Inr \<lparr> title = t, root = path_dirname h (path_dirname h p),
                        tableOfContents = flat, page = toc, item_type = Book,
                        treeItemCollapsibleState = Expanded, untitled = u,
                        light = asAbsolutePath h ''resources/light/book.svg'',
                        dark = asAbsolutePath h ''resources/dark/book_inverse.svg'' \<rparr>)))"
  by (simp add: loadBook_def config_path_def Let_def)

text \<open>
  C4. Loading the book of a TOC path fails when its \<^verbatim>\<open>_config.yml\<close> cannot be read,
  when the configuration or the TOC file does not parse, when the TOC file cannot be
  read, and when the outline does not flatten; otherwise it yields the Book node with
  the configured title and the flattened outline. For every list of discovered TOC
  paths, the books \<^verbatim>\<open>getBooks\<close> returns are, in order, the books of the paths that
  load, and the messages it shows are, in order, the caught errors of the paths that do
  not. A path whose load fails contributes no node; its error is shown, and it is the
  recorded \<^verbatim>\<open>_errorMessage\<close> when no later path fails; and the returned books are
  those of the same list without the failing path: one bad book never keeps the others
  from loading.
\<close>

theorem getBooks_skips_failed_book:
  assumes "tableOfContentPaths st = ps"
  shows "((\<forall>x. readFileSync h (config_path h p) = Inl x \<longrightarrow> loadBook h u p = Inl (Throw_Error x)) \<and>
          (\<forall>ct x. readFileSync h (config_path h p) = Inr ct \<and> safeLoad h ct = Inl x \<longrightarrow>
             loadBook h u p = Inl (Throw_Error x)) \<and>
          (\<forall>ct config.
             readFileSync h (config_path h p) = Inr ct \<and> safeLoad h ct = Inr config \<longrightarrow>
               (\<forall>x. readFileSync h p = Inl x \<longrightarrow> loadBook h u p = Inl (Throw_Error x)) \<and>
               (\<forall>tt x. readFileSync h p = Inr tt \<and> safeLoad h tt = Inl x \<longrightarrow>
                  loadBook h u p = Inl (Throw_Error x)) \<and>
               (\<forall>tt toc.
                  readFileSync h p = Inr tt \<and> safeLoad h tt = Inr toc \<longrightarrow>
                    (\<forall>e. get_prop config ''title'' = Inl e \<longrightarrow> loadBook h u p = Inl e) \<and>
                    (\<forall>t e. get_prop config ''title'' = Inr t \<and> flattenArray toc t = Inl e \<longrightarrow>
                       loadBook h u p = Inl e) \<and>
                    (\<forall>t flat. get_prop config ''title'' = Inr t \<and> flattenArray toc t = Inr flat \<longrightarrow>
                       loadBook h u p =
                         Inr \<lparr> title = t, root = path_dirname h (path_dirname h p),
                               tableOfContents = flat, page = toc, item_type = Book,
                               treeItemCollapsibleState = Expanded, untitled = u,
                               light = asAbsolutePath h ''resources/light/book.svg'',
                               dark = asAbsolutePath h ''resources/dark/book_inverse.svg'' \<rparr>)))) \<and>
         fst (getBooks h st) = concat (map (book_of h (openAsUntitled st)) ps) \<and>
         shown (snd (getBooks h st)) =
           shown st @ concat (map (failure_of h (openAsUntitled st)) ps) \<and>
         (\<forall>pre bad post e.
            ps = pre @ bad # post \<and> loadBook h (openAsUntitled st) bad = Inl e \<longrightarrow>
              book_of h (openAsUntitled st) bad = [] \<and>
              caught_message e \<in> set (shown (snd (getBooks h st))) \<and>
              (post = [] \<or> (\<forall>p \<in> set post. \<exists>b. loadBook h (openAsUntitled st) p = Inr b)
                 \<longrightarrow> errorMessage (snd (getBooks h st)) = Some (caught_message e)) \<and>
              fst (getBooks h st) =
                fst (getBooks h (st\<lparr>tableOfContentPaths := pre @ post\<rparr>)))"
proof -
  have 1: "fst (getBooks h st) = concat (map (book_of h (openAsUntitled st)) ps)"
    using assms by (simp add: getBooks_def getBooks_loop_books)
  have 2: "shown (snd (getBooks h st)) =
           shown st @ concat (map (failure_of h (openAsUntitled st)) ps)"
    using assms by (simp add: getBooks_def getBooks_loop_shown)
  have 3: "book_of h (openAsUntitled st) bad = [] \<and>
           caught_message e \<in> set (shown (snd (getBooks h st))) \<and>
           (post = [] \<or> (\<forall>p \<in> set post. \<exists>b. loadBook h (openAsUntitled st) p = Inr b)
                 \<longrightarrow> errorMessage (snd (getBooks h st)) = Some (caught_message e)) \<and>
           fst (getBooks h st) = fst (getBooks h (st\<lparr>tableOfContentPaths := pre @ post\<rparr>))"
    if ps: "ps = pre @ bad # post" and bad: "loadBook h (openAsUntitled st) bad = Inl e"
    for pre bad post e
  proof (intro conjI impI)
    show b: "book_of h (openAsUntitled st) bad = []" using bad by (simp add: book_of_def)
    have f: "failure_of h (openAsUntitled st) bad = [caught_message e]"
      using bad by (simp add: failure_of_def)
    show "caught_message e \<in> set (shown (snd (getBooks h st)))"
      by (simp add: 2 ps f)
    show "fst (getBooks h st) = fst (getBooks h (st\<lparr>tableOfContentPaths := pre @ post\<rparr>))"
      by (simp add: 1 ps b) (simp add: getBooks_def getBooks_loop_books)
    assume "post = [] \<or> (\<forall>p \<in> set post. \<exists>b. loadBook h (openAsUntitled st) p = Inr b)"
    then have "concat (map (failure_of h (openAsUntitled st)) post) = []"
      by (auto simp: failure_of_def)
    then show "errorMessage (snd (getBooks h st)) = Some (caught_message e)"
      using assms by (simp add: getBooks_def getBooks_loop_errorMessage ps f)
  qed
  from 3 have 4: "\<forall>pre bad post e.
            ps = pre @ bad # post \<and> loadBook h (openAsUntitled st) bad = Inl e \<longrightarrow>
              book_of h (openAsUntitled st) bad = [] \<and>
              caught_message e \<in> set (shown (snd (getBooks h st))) \<and>
              (post = [] \<or> (\<forall>p \<in> set post. \<exists>b. loadBook h (openAsUntitled st) p = Inr b)
                 \<longrightarrow> errorMessage (snd (getBooks h st)) = Some (caught_message e)) \<and>
              fst (getBooks h st) =
                fst (getBooks h (st\<lparr>tableOfContentPaths := pre @ post\<rparr>))"
    by blast
  show ?thesis
    by (rule conjI [OF loadBook_outcomes conjI [OF 1 conjI [OF 2 4]]])
qed

text \<open>
  Three of the books discovered, the second with a TOC file that does not parse.
\<close>

definition demo_provider :: provider where
  "demo_provider =
     (init_provider False)
       \<lparr>tableOfContentPaths :=
          [''/ws/b1/_data/toc.yml''] @ ''/ws/b2/_data/toc.yml'' # [''/ws/b3/_data/toc.yml'']\<rparr>"

lemmas demo_path_simps =
  config_path_def demo_host_def demo_disk_def demo_yaml_def posix_dirname_def strip_slashes_def

lemmas demo_book_simps =
  loadBook_def demo_host_def demo_disk_def demo_yaml_def posix_dirname_def strip_slashes_def
  flattenArray.simps get_prop_def concat_js_def toc_intro_def toc_setup_def toc_ghost_def
  book_of_def failure_of_def caught_message_def

theorem getBooks_skips_failed_book_witness:
  "loadBook demo_host False ''/ws/b2/_data/toc.yml'' =
     Inl (Throw_Error (YAMLException ''- title: ['')) \<and>
   loadBook demo_host False ''/ws/b4/_data/toc.yml'' =
     Inl (Throw_Error (ENOENT ''/ws/b4/_config.yml'')) \<and>
   loadBook demo_host False ''/ws/b5/_data/toc.yml'' = Inl (invalid_toc (JStr ''Five'')) \<and>
   map title (fst (getBooks demo_host demo_provider)) = [JStr ''One'', JStr ''Three''] \<and>
   shown (snd (getBooks demo_host demo_provider)) = [Message_of (YAMLException ''- title: ['')] \<and>
   errorMessage (snd (getBooks demo_host demo_provider)) =
     Some (Message_of (YAMLException ''- title: ['')) \<and>
   fst (getBooks demo_host demo_provider) =
     fst (getBooks demo_host
       (demo_provider\<lparr>tableOfContentPaths := [''/ws/b1/_data/toc.yml''] @ [''/ws/b3/_data/toc.yml'']\<rparr>))"
proof -
  have u: "openAsUntitled demo_provider = False"
    by (simp add: demo_provider_def init_provider_def)
  have ps: "tableOfContentPaths demo_provider =
     [''/ws/b1/_data/toc.yml''] @ ''/ws/b2/_data/toc.yml'' # [''/ws/b3/_data/toc.yml'']"
    by (simp add: demo_provider_def)
  have sh: "shown demo_provider = []"
    by (simp add: demo_provider_def init_provider_def)
  note load = getBooks_skips_failed_book [OF ps, of demo_host _ False, THEN conjunct1]
  have c2: "readFileSync demo_host (config_path demo_host ''/ws/b2/_data/toc.yml'') = Inr ''title: Two'' \<and>
            safeLoad demo_host ''title: Two'' = Inr (JObj [(''title'', JStr ''Two'')])"
    by (simp add: demo_path_simps)
  have t2: "readFileSync demo_host ''/ws/b2/_data/toc.yml'' = Inr ''- title: ['' \<and>
            safeLoad demo_host ''- title: ['' = Inl (YAMLException ''- title: ['')"
    by (simp add: demo_path_simps)
  from load [of "''/ws/b2/_data/toc.yml''"] c2 t2
  have bad: "loadBook demo_host False ''/ws/b2/_data/toc.yml'' =
     Inl (Throw_Error (YAMLException ''- title: ['')) "
    by blast
  have c4: "readFileSync demo_host (config_path demo_host ''/ws/b4/_data/toc.yml'') =
              Inl (ENOENT ''/ws/b4/_config.yml'')"
    by (simp add: demo_path_simps)
  from load [of "''/ws/b4/_data/toc.yml''"] c4
  have bad4: "loadBook demo_host False ''/ws/b4/_data/toc.yml'' =
     Inl (Throw_Error (ENOENT ''/ws/b4/_config.yml''))"
    by blast
  have c5: "readFileSync demo_host (config_path demo_host ''/ws/b5/_data/toc.yml'') = Inr ''title: Five'' \<and>
            safeLoad demo_host ''title: Five'' = Inr (JObj [(''title'', JStr ''Five'')])"
    by (simp add: demo_path_simps)
  have t5: "readFileSync demo_host ''/ws/b5/_data/toc.yml'' = Inr ''title: Five'' \<and>
            safeLoad demo_host ''title: Five'' = Inr (JObj [(''title'', JStr ''Five'')])"
    by (simp add: demo_path_simps)
  have f5: "get_prop (JObj [(''title'', JStr ''Five'')]) ''title'' = Inr (JStr ''Five'') \<and>
            flattenArray (JObj [(''title'', JStr ''Five'')]) (JStr ''Five'') = Inl (invalid_toc (JStr ''Five''))"
    by (simp add: get_prop_def flattenArray.simps)
  from load [of "''/ws/b5/_data/toc.yml''"] c5 t5 f5
  have bad5: "loadBook demo_host False ''/ws/b5/_data/toc.yml'' = Inl (invalid_toc (JStr ''Five''))"
    by blast
  have b1: "map title (book_of demo_host False ''/ws/b1/_data/toc.yml'') = [JStr ''One'']"
    by (simp add: demo_book_simps)
  have b3: "map title (book_of demo_host False ''/ws/b3/_data/toc.yml'') = [JStr ''Three'']"
    by (simp add: demo_book_simps)
  have b2: "book_of demo_host False ''/ws/b2/_data/toc.yml'' = []"
    using bad by (simp add: book_of_def)
  have f1: "failure_of demo_host False ''/ws/b1/_data/toc.yml'' = []"
    by (simp add: demo_book_simps)
  have f3: "failure_of demo_host False ''/ws/b3/_data/toc.yml'' = []"
    by (simp add: demo_book_simps)
  have good3: "\<forall>p \<in> set [''/ws/b3/_data/toc.yml'']. \<exists>b. loadBook demo_host False p = Inr b"
    using f3 by (auto simp: failure_of_def split: sum.splits)
  note t = getBooks_skips_failed_book [OF ps, of demo_host "[]" False, THEN conjunct2, unfolded u]
  from t have "fst (getBooks demo_host demo_provider) =
      concat (map (book_of demo_host False)
        ([''/ws/b1/_data/toc.yml''] @ ''/ws/b2/_data/toc.yml'' # [''/ws/b3/_data/toc.yml'']))"
    by (rule conjunct1)
  then have books: "map title (fst (getBooks demo_host demo_provider)) = [JStr ''One'', JStr ''Three'']"
    by (simp add: b1 b2 b3)
  from t have "shown (snd (getBooks demo_host demo_provider)) =
      shown demo_provider @ concat (map (failure_of demo_host False)
        ([''/ws/b1/_data/toc.yml''] @ ''/ws/b2/_data/toc.yml'' # [''/ws/b3/_data/toc.yml'']))"
    by (elim conjE)
  then have shown: "shown (snd (getBooks demo_host demo_provider)) =
      [Message_of (YAMLException ''- title: ['')]"
    using bad by (simp add: sh f1 f3) (simp add: failure_of_def caught_message_def)
  from t have "\<forall>pre bad post e.
      [''/ws/b1/_data/toc.yml''] @ ''/ws/b2/_data/toc.yml'' # [''/ws/b3/_data/toc.yml''] = pre @ bad # post \<and>
      loadBook demo_host False bad = Inl e \<longrightarrow>
        book_of demo_host False bad = [] \<and>
        caught_message e \<in> set (shown (snd (getBooks demo_host demo_provider))) \<and>
        (post = [] \<or> (\<forall>p \<in> set post. \<exists>b. loadBook demo_host False p = Inr b)
           \<longrightarrow> errorMessage (snd (getBooks demo_host demo_provider)) = Some (caught_message e)) \<and>
        fst (getBooks demo_host demo_provider) =
          fst (getBooks demo_host (demo_provider\<lparr>tableOfContentPaths := pre @ post\<rparr>))"
    by (elim conjE)
  from this [THEN spec, of "[''/ws/b1/_data/toc.yml'']", THEN spec, of "''/ws/b2/_data/toc.yml''",
      THEN spec, of "[''/ws/b3/_data/toc.yml'']", THEN spec,
      of "Throw_Error (YAMLException ''- title: ['')"] bad good3
  have
    "errorMessage (snd (getBooks demo_host demo_provider)) =
       Some (caught_message (Throw_Error (YAMLException ''- title: [''))) \<and>
     fst (getBooks demo_host demo_provider) =
       fst (getBooks demo_host
         (demo_provider\<lparr>tableOfContentPaths := [''/ws/b1/_data/toc.yml''] @ [''/ws/b3/_data/toc.yml'']\<rparr>))"
    by simp
  with bad bad4 bad5 books shown show ?thesis by (simp add: caught_message_def)
qed

subsection \<open>getTableOfContentFiles\<close>

text \<open>\<^verbatim>\<open>.replace(/\\/g, '/')\<close>: every backslash becomes a slash.\<close>

definition slashes :: "string \<Rightarrow> string" where
  "slashes p = map (\<lambda>c. if c = CHR 0x5C then CHR ''/'' else c) p"

definition toc_pattern :: "host \<Rightarrow> string \<Rightarrow> string" where
  "toc_pattern h workspacePath = slashes (path_join h [workspacePath, ''**'', ''_data'', ''toc.yml''])"

text \<open>
  The \<^verbatim>\<open>for\<close> loop over the workspace paths, with the depth already settled; \<open>deep\<close>
  is the \<^verbatim>\<open>deep\<close> option handed to \<^verbatim>\<open>glob\<close>, \<open>None\<close> for \<^verbatim>\<open>undefined\<close>. A rejected
  \<^verbatim>\<open>glob\<close> ends the function with what was accumulated so far.
\<close>

fun glob_loop :: "host \<Rightarrow> int option \<Rightarrow> string list \<Rightarrow> provider \<Rightarrow> (thrown + unit) \<times> provider" where
  "glob_loop h deep [] st = (Inr (), st)"
| "glob_loop h deep (workspacePath # rest) st =
     (case glob h (toc_pattern h workspacePath) deep of
        Inl e \<Rightarrow> (Inl e, st)
      | Inr found \<Rightarrow>
          glob_loop h deep rest (st\<lparr>tableOfContentPaths := tableOfContentPaths st @ found\<rparr>))"

text \<open>
  The statements after the loop, reached when no \<^verbatim>\<open>glob\<close> was rejected: the
  \<^verbatim>\<open>bookOpened\<close> context is set and \<^verbatim>\<open>_onReadAllTOCFiles\<close> fires.
\<close>

definition finish_scan :: "(thrown + unit) \<times> provider \<Rightarrow> (thrown + unit) \<times> provider" where
  "finish_scan r =
     (case r of
        (Inl e, st1) \<Rightarrow> (Inl e, st1)
      | (Inr _, st1) \<Rightarrow>
          (Inr (),
           st1\<lparr>contexts := contexts st1 @ [(''bookOpened'', 0 < length (tableOfContentPaths st1))],
               readAllFired := Suc (readAllFired st1)\<rparr>))"

text \<open>
  \<^verbatim>\<open>
  let maxDepth = notebookConfig[maxBookSearchDepth];
  // Use default value if user enters an invalid value
  if (maxDepth === undefined || maxDepth < 0) {
    maxDepth = 5;
  } else if (maxDepth === 0) { // No limit of search depth if user enters 0
    maxDepth = undefined;
  }
  \<close>
\<close>

definition getTableOfContentFiles ::
  "host \<Rightarrow> string list \<Rightarrow> provider \<Rightarrow> (thrown + unit) \<times> provider" where
  "getTableOfContentFiles h workspacePaths st =
     (let maxDepth = maxBookSearchDepth h;
          maxDepth = (if maxDepth = None \<or> the maxDepth < 0 then Some 5
                      else if maxDepth = Some 0 then None
                      else maxDepth)
      in finish_scan (glob_loop h maxDepth workspacePaths st))"

text \<open>
  The search depth the claim states for a configured value; \<open>None\<close> on the right is
  the unlimited search.
\<close>

definition stated_depth :: "int option \<Rightarrow> int option" where
  "stated_depth configured =
     (case configured of
        None \<Rightarrow> Some 5
      | Some d \<Rightarrow> if d < 0 then Some 5 else if d = 0 then None else Some d)"

lemma glob_loop_all:
  assumes "\<forall>w \<in> set ws. glob h (toc_pattern h w) deep = Inr (found w)"
  shows "glob_loop h deep ws st =
           (Inr (), st\<lparr>tableOfContentPaths := tableOfContentPaths st @ concat (map found ws)\<rparr>)"
  using assms by (induction ws arbitrary: st) auto

lemma glob_loop_prefix:
  "\<exists>more. tableOfContentPaths (snd (glob_loop h deep ws st)) = tableOfContentPaths st @ more"
proof (induction ws arbitrary: st)
  case Nil
  show ?case by simp
next
  case (Cons w ws)
  show ?case
  proof (cases "glob h (toc_pattern h w) deep")
    case (Inl e)
    then show ?thesis by simp
  next
    case (Inr found)
    from Cons.IH [of "st\<lparr>tableOfContentPaths := tableOfContentPaths st @ found\<rparr>"]
    show ?thesis using Inr by auto
  qed
qed

lemma getTableOfContentFiles_depth:
  "getTableOfContentFiles h ws st =
     finish_scan (glob_loop h (stated_depth (maxBookSearchDepth h)) ws st)"
proof -
  have "(if maxBookSearchDepth h = None \<or> the (maxBookSearchDepth h) < 0 then Some 5
         else if maxBookSearchDepth h = Some 0 then None else maxBookSearchDepth h) =
        stated_depth (maxBookSearchDepth h)"
    by (cases "maxBookSearchDepth h") (auto simp: stated_depth_def)
  then show ?thesis by (simp add: getTableOfContentFiles_def Let_def)
qed

text \<open>
  C5. The depth \<^verbatim>\<open>getTableOfContentFiles\<close> searches with is 5 for an unset or negative
  configured value, unlimited for 0, and the configured value when it is positive: the
  function is its loop over the workspace paths run at that depth, and whenever the
  searches at that depth succeed, it succeeds with their results.
  The accumulated list is only ever appended to: the old list is a prefix of the new
  one, a scan appends the paths found for each workspace path in order, and a second
  scan appends the same paths once more, without removing duplicates.
\<close>

theorem getTableOfContentFiles_depth_and_append:
  "(stated_depth None = Some 5 \<and>
    (\<forall>d. (d < 0 \<longrightarrow> stated_depth (Some d) = Some 5) \<and>
         stated_depth (Some 0) = None \<and>
         (0 < d \<longrightarrow> stated_depth (Some d) = Some d))) \<and>
   getTableOfContentFiles h ws st =
     finish_scan (glob_loop h (stated_depth (maxBookSearchDepth h)) ws st) \<and>
   (\<exists>more. tableOfContentPaths (snd (getTableOfContentFiles h ws st)) =
             tableOfContentPaths st @ more) \<and>
   (\<forall>found.
      (\<forall>w \<in> set ws. glob h (toc_pattern h w) (stated_depth (maxBookSearchDepth h)) = Inr (found w))
      \<longrightarrow>
        fst (getTableOfContentFiles h ws st) = Inr () \<and>
        tableOfContentPaths (snd (getTableOfContentFiles h ws st)) =
          tableOfContentPaths st @ concat (map found ws) \<and>
        tableOfContentPaths
            (snd (getTableOfContentFiles h ws (snd (getTableOfContentFiles h ws st)))) =
          tableOfContentPaths st @ concat (map found ws) @ concat (map found ws))"
proof (intro conjI allI impI)
  show "getTableOfContentFiles h ws st =
     finish_scan (glob_loop h (stated_depth (maxBookSearchDepth h)) ws st)"
    by (rule getTableOfContentFiles_depth)
next
  show "\<exists>more. tableOfContentPaths (snd (getTableOfContentFiles h ws st)) =
             tableOfContentPaths st @ more"
    using glob_loop_prefix [of h "stated_depth (maxBookSearchDepth h)" ws st]
    by (cases "glob_loop h (stated_depth (maxBookSearchDepth h)) ws st")
       (auto simp: getTableOfContentFiles_depth finish_scan_def split: sum.splits)
next
  fix found
  assume g: "\<forall>w \<in> set ws. glob h (toc_pattern h w) (stated_depth (maxBookSearchDepth h)) = Inr (found w)"
  have run: "getTableOfContentFiles h ws s =
      (Inr (), s\<lparr>tableOfContentPaths := tableOfContentPaths s @ concat (map found ws),
                 contexts := contexts s @
                   [(''bookOpened'', 0 < length (tableOfContentPaths s @ concat (map found ws)))],
                 readAllFired := Suc (readAllFired s)\<rparr>)" for s
    by (simp add: getTableOfContentFiles_depth finish_scan_def glob_loop_all [OF g])
  show "fst (getTableOfContentFiles h ws st) = Inr ()" by (simp add: run)
  show "tableOfContentPaths (snd (getTableOfContentFiles h ws st)) =
          tableOfContentPaths st @ concat (map found ws)"
    by (simp add: run)
  show "tableOfContentPaths
            (snd (getTableOfContentFiles h ws (snd (getTableOfContentFiles h ws st)))) =
          tableOfContentPaths st @ concat (map found ws) @ concat (map found ws)"
    by (simp add: run)
qed (simp_all add: stated_depth_def)

theorem getTableOfContentFiles_depth_and_append_witness:
  "maxBookSearchDepth demo_host = None \<and>
   glob demo_host (toc_pattern demo_host ''/ws'') (Some 5) = Inr demo_tocs \<and>
   tableOfContentPaths (snd (getTableOfContentFiles demo_host [''/ws''] (init_provider False))) =
     demo_tocs \<and>
   tableOfContentPaths
     (snd (getTableOfContentFiles demo_host [''/ws'']
        (snd (getTableOfContentFiles demo_host [''/ws''] (init_provider False))))) =
     demo_tocs @ demo_tocs"
proof -
  have d: "maxBookSearchDepth demo_host = None" by (simp add: demo_host_def)
  have g: "\<forall>w \<in> set [''/ws'']. glob demo_host (toc_pattern demo_host w)
             (stated_depth (maxBookSearchDepth demo_host)) = Inr ((\<lambda>w. demo_tocs) w)"
    by (simp add: demo_host_def toc_pattern_def slashes_def stated_depth_def)
  have e: "tableOfContentPaths (init_provider False) = []" by (simp add: init_provider_def)
  note t = getTableOfContentFiles_depth_and_append
    [of demo_host "[''/ws'']" "init_provider False", THEN conjunct2, THEN conjunct2,
     THEN conjunct2, THEN spec, of "\<lambda>w. demo_tocs", THEN mp, OF g]
  from t have
    "tableOfContentPaths (snd (getTableOfContentFiles demo_host [''/ws''] (init_provider False))) =
       tableOfContentPaths (init_provider False) @ concat (map (\<lambda>w. demo_tocs) [''/ws''])"
    by (elim conjE)
  moreover from t have
    "tableOfContentPaths
       (snd (getTableOfContentFiles demo_host [''/ws'']
          (snd (getTableOfContentFiles demo_host [''/ws''] (init_provider False))))) =
       tableOfContentPaths (init_provider False) @ concat (map (\<lambda>w. demo_tocs) [''/ws'']) @
       concat (map (\<lambda>w. demo_tocs) [''/ws''])"
    by (elim conjE)
  ultimately show ?thesis using d g e by (simp add: stated_depth_def)
qed

section \<open>JavaScript string operations\<close>

text \<open>
  \<^verbatim>\<open>s.endsWith(suffix)\<close> and \<^verbatim>\<open>s.includes(part)\<close>.
\<close>

definition endsWith :: "string \<Rightarrow> string \<Rightarrow> bool" where
  "endsWith s suffix \<longleftrightarrow>
     length suffix \<le> length s \<and> drop (length s - length suffix) s = suffix"

fun includes_str :: "string \<Rightarrow> string \<Rightarrow> bool" where
  "includes_str [] part = (part = [])"
| "includes_str (c # cs) part = (take (length part) (c # cs) = part \<or> includes_str cs part)"

text \<open>
  The replacement text of \<^verbatim>\<open>String.prototype.replace\<close> is a template: \<^verbatim>\<open>$$\<close> stands
  for a dollar sign, \<^verbatim>\<open>$&\<close> for the matched text, a dollar sign followed by a backquote
  for the text before the match and followed by an apostrophe for the text after it. The
  patterns used here have no capture groups, so every other character, a dollar sign
  included, stands for itself. The arguments are the matched text, the text before it,
  the text after it and the template.
\<close>

fun substitution :: "string \<Rightarrow> string \<Rightarrow> string \<Rightarrow> string \<Rightarrow> string" where
  "substitution m before after [] = []"
| "substitution m before after [c] = [c]"
| "substitution m before after (c # d # r) =
     (if c = CHR ''$'' then
        if d = CHR ''$'' then CHR ''$'' # substitution m before after r
        else if d = CHR ''&'' then m @ substitution m before after r
        else if d = CHR 0x60 then before @ substitution m before after r
        else if d = CHR 0x27 then after @ substitution m before after r
        else c # substitution m before after (d # r)
      else c # substitution m before after (d # r))"



subsection \<open>getParent\<close>
















section \<open>The throttled open action\<close>

text \<open>
  \<^verbatim>\<open>runThrottledAction\<close> reads and writes two fields of the provider, \<^verbatim>\<open>_resource\<close> and
  \<^verbatim>\<open>_throttleTimer\<close>, and uses the host's timers. The state holds those two fields, the
  host's pending timeouts (handle, due time, callback) in the order they were set, the
  next free handle, the current time, and the actions invoked so far, oldest first.
  Handles are positive, as the host's are truthy. An action is an arbitrary value: only
  which action runs, and when, matters here.
\<close>

record 'a throttle =
  resource :: "string option"
  throttleTimer :: "nat option"
  timers :: "(nat \<times> nat \<times> 'a) list"
  next_handle :: nat
  clock :: nat
  invoked :: "'a list"

definition init_throttle :: "'a throttle" where
  "init_throttle =
     \<lparr> resource = None, throttleTimer = None, timers = [], next_handle = 1, clock = 0,
       invoked = [] \<rparr>"

text \<open>\<^verbatim>\<open>clearTimeout\<close>: no effect on \<^verbatim>\<open>undefined\<close> or on a handle that is not pending.\<close>

definition clearTimeout :: "nat option \<Rightarrow> 'a throttle \<Rightarrow> 'a throttle" where
  "clearTimeout handle s =
     (case handle of
        None \<Rightarrow> s
      | Some k \<Rightarrow> s\<lparr>timers := filter (\<lambda>(k', due, a). k' \<noteq> k) (timers s)\<rparr>)"

definition setTimeout :: "'a \<Rightarrow> nat \<Rightarrow> 'a throttle \<Rightarrow> nat \<times> 'a throttle" where
  "setTimeout a delay s =
     (next_handle s,
      s\<lparr>timers := timers s @ [(next_handle s, clock s + delay, a)],
        next_handle := Suc (next_handle s)\<rparr>)"

definition runThrottledAction :: "string \<Rightarrow> 'a \<Rightarrow> 'a throttle \<Rightarrow> 'a throttle" where
  "runThrottledAction r action s =
     (let isResourceChange = (resource s \<noteq> Some r);
          s1 = (if isResourceChange
                then (clearTimeout (throttleTimer s) s)\<lparr>throttleTimer := None\<rparr>
                else s);
          s2 = s1\<lparr>resource := Some r\<rparr>
      in if throttleTimer s2 = None then
           if isResourceChange then s2\<lparr>invoked := invoked s2 @ [action]\<rparr>
           else (case setTimeout action 300 s2 of (k, s3) \<Rightarrow> s3\<lparr>throttleTimer := Some k\<rparr>)
         else s2)"

text \<open>
  Time passes: every timeout that is due runs its callback \<^verbatim>\<open>() => action()\<close>, in the
  order the timeouts were set (all have the same delay), and is gone from the host. The
  callback does not touch \<^verbatim>\<open>_throttleTimer\<close>.
\<close>

definition elapse :: "nat \<Rightarrow> 'a throttle \<Rightarrow> 'a throttle" where
  "elapse d s =
     (let now = clock s + d
      in s\<lparr>clock := now,
           timers := filter (\<lambda>(k, due, a). \<not> due \<le> now) (timers s),
           invoked := invoked s @ map (\<lambda>(k, due, a). a) (filter (\<lambda>(k, due, a). due \<le> now) (timers s))\<rparr>)"

text \<open>The handle \<open>k\<close> is still pending in the host.\<close>

definition pending :: "'a throttle \<Rightarrow> nat \<Rightarrow> bool" where
  "pending s k \<longleftrightarrow> k \<in> set (map fst (timers s))"

text \<open>
  C6, as stated, fails. Two requests for the same resource, ten units apart, from the
  initial state: the first call's action runs at once, the second call's action is
  scheduled and runs when its 300 units have passed. The action is invoked twice, not
  once with the second call's trigger.
\<close>

theorem runThrottledAction_twice_counterexample:
  "invoked (elapse 300 (runThrottledAction ''a.md'' ''second''
      (elapse 10 (runThrottledAction ''a.md'' ''first'' init_throttle)))) = [''first'', ''second''] \<and>
   invoked (elapse 300 (runThrottledAction ''a.md'' ''second''
      (elapse 10 (runThrottledAction ''a.md'' ''first'' init_throttle)))) \<noteq> [''second'']"
  by (simp add: runThrottledAction_def elapse_def init_throttle_def clearTimeout_def
      setTimeout_def Let_def)

text \<open>
  C6, amended. A request for a resource other than the current one (the first request
  included) cancels the pending scheduled action, if any, and invokes its own action
  immediately. A request for the current resource while no timer handle is held is not
  invoked at once: it is scheduled to run 300 units later. A request for the current
  resource while a scheduled action is still pending is dropped; the pending action
  stays the earlier one. In particular two requests in succession for the same
  resource, from the initial state, invoke the first call's action at once and the
  second call's action once 300 units have passed after it: two invocations.
\<close>

theorem runThrottledAction_policy:
  "(resource s \<noteq> Some r \<longrightarrow>
      invoked (runThrottledAction r a s) = invoked s @ [a] \<and>
      timers (runThrottledAction r a s) = timers (clearTimeout (throttleTimer s) s) \<and>
      (\<forall>k. throttleTimer s = Some k \<longrightarrow> \<not> pending (runThrottledAction r a s) k) \<and>
      throttleTimer (runThrottledAction r a s) = None \<and>
      resource (runThrottledAction r a s) = Some r) \<and>
   (resource s = Some r \<and> throttleTimer s = None \<longrightarrow>
      invoked (runThrottledAction r a s) = invoked s \<and>
      timers (runThrottledAction r a s) = timers s @ [(next_handle s, clock s + 300, a)] \<and>
      throttleTimer (runThrottledAction r a s) = Some (next_handle s)) \<and>
   (\<forall>k. resource s = Some r \<and> throttleTimer s = Some k \<and> pending s k \<longrightarrow>
      runThrottledAction r a s = s) \<and>
   (\<forall>a1 a2 d1 d2.
      invoked (elapse d2 (runThrottledAction r a2
         (elapse d1 (runThrottledAction r a1 init_throttle)))) =
        (if 300 \<le> d2 then [a1, a2] else [a1]))"
  by (auto simp: runThrottledAction_def elapse_def init_throttle_def clearTimeout_def
      setTimeout_def Let_def pending_def split: option.splits)

theorem runThrottledAction_policy_witness:
  "resource (init_throttle :: string throttle) \<noteq> Some ''a.md'' \<and>
   invoked (runThrottledAction ''a.md'' ''first'' init_throttle) = [''first''] \<and>
   resource (runThrottledAction ''a.md'' ''first'' init_throttle) = Some ''a.md'' \<and>
   throttleTimer (runThrottledAction ''a.md'' ''first'' init_throttle) = None \<and>
   timers (runThrottledAction ''a.md'' ''second'' (runThrottledAction ''a.md'' ''first'' init_throttle)) =
     [(1, 300, ''second'')] \<and>
   pending (runThrottledAction ''a.md'' ''second'' (runThrottledAction ''a.md'' ''first'' init_throttle)) 1 \<and>
   runThrottledAction ''a.md'' ''third''
     (runThrottledAction ''a.md'' ''second'' (runThrottledAction ''a.md'' ''first'' init_throttle)) =
   runThrottledAction ''a.md'' ''second'' (runThrottledAction ''a.md'' ''first'' init_throttle) \<and>
   invoked (runThrottledAction ''b.md'' ''other''
     (runThrottledAction ''a.md'' ''second'' (runThrottledAction ''a.md'' ''first'' init_throttle))) = [''first'', ''other''] \<and>
   timers (runThrottledAction ''b.md'' ''other''
     (runThrottledAction ''a.md'' ''second'' (runThrottledAction ''a.md'' ''first'' init_throttle))) = []"
proof -
  let ?s0 = "init_throttle :: string throttle"
  let ?s1 = "runThrottledAction ''a.md'' ''first'' init_throttle"
  let ?s2 = "runThrottledAction ''a.md'' ''second'' ?s1"
  have r0: "resource ?s0 \<noteq> Some ''a.md''" by (simp add: init_throttle_def)
  have i0: "invoked ?s0 = []" "next_handle ?s0 = 1" "clock ?s0 = 0" "timers ?s0 = []"
    by (simp_all add: init_throttle_def)
  from runThrottledAction_policy [of ?s0 "''a.md''" "''first''"] r0
  have s1: "invoked ?s1 = invoked ?s0 @ [''first'']" "throttleTimer ?s1 = None" "resource ?s1 = Some ''a.md''"
    "timers ?s1 = timers (clearTimeout (throttleTimer ?s0) ?s0)"
    by blast+
  have t1: "timers ?s1 = []" "next_handle ?s1 = 1" "clock ?s1 = 0"
    by (simp_all add: runThrottledAction_def init_throttle_def clearTimeout_def Let_def)
  from runThrottledAction_policy [of ?s1 "''a.md''" "''second''"] s1
  have s2: "invoked ?s2 = invoked ?s1" "timers ?s2 = timers ?s1 @ [(next_handle ?s1, clock ?s1 + 300, ''second'')]"
    "throttleTimer ?s2 = Some (next_handle ?s1)"
    by blast+
  have r2: "resource ?s2 = Some ''a.md''"
    by (simp add: runThrottledAction_def init_throttle_def clearTimeout_def setTimeout_def Let_def)
  have p2: "pending ?s2 1"
    by (simp add: pending_def runThrottledAction_def init_throttle_def clearTimeout_def
        setTimeout_def Let_def)
  from runThrottledAction_policy [of ?s2 "''a.md''" "''third''"] r2 s2 t1 p2
  have s3: "runThrottledAction ''a.md'' ''third'' ?s2 = ?s2" by auto
  have rb: "resource ?s2 \<noteq> Some ''b.md''" by (simp add: r2)
  from runThrottledAction_policy [of ?s2 "''b.md''" "''other''"] rb
  have s4: "invoked (runThrottledAction ''b.md'' ''other'' ?s2) = invoked ?s2 @ [''other'']"
    "timers (runThrottledAction ''b.md'' ''other'' ?s2) = timers (clearTimeout (throttleTimer ?s2) ?s2)"
    by blast+
  show ?thesis
    using r0 s1 s2 p2 s3 s4 by (simp add: i0 t1 clearTimeout_def)
qed

section \<open>The projects controller\<close>

text \<open>
  What \<^verbatim>\<open>ProjectsController\<close> takes from its surroundings: Node's \<^verbatim>\<open>path\<close>, the UUID
  helpers of \<^verbatim>\<open>vscode-languageclient\<close>, the project template and the constants of
  \<^verbatim>\<open>../common/constants\<close> and \<^verbatim>\<open>../templates/templates\<close>, and the engine's regular
  expressions for a pattern source that is more than literal text (\<open>regexp_replace\<close>
  takes the source, the replacement and the subject; a malformed source throws).
\<close>

record project_host = node_path +
  isUUID :: "string \<Rightarrow> bool"
  generateUuid :: string
  newSqlProjectTemplate :: string
  sqlprojExtension :: string
  projectAlreadyExists :: "string \<Rightarrow> string \<Rightarrow> string"
  regexp_replace :: "string \<Rightarrow> string \<Rightarrow> string \<Rightarrow> thrown + string"

subsection \<open>macroExpansion\<close>

text \<open>
  \<^verbatim>\<open>output.replace(new RegExp(source, 'g'), repl)\<close>. A source without any of the
  characters that carry a meaning in a regular expression matches itself: every
  occurrence, left to right and without overlap, is replaced by the expanded template
  \<open>repl\<close>. The sources built by \<^verbatim>\<open>macroExpansion\<close> are never empty. Any other
  source is left to the host's engine.
\<close>

definition regexp_special :: "char \<Rightarrow> bool" where
  "regexp_special c \<longleftrightarrow> c \<in> set (CHR 0x5C # ''^$.*+?()[]{}|'')"

function replace_all :: "string \<Rightarrow> string \<Rightarrow> string \<Rightarrow> string \<Rightarrow> string" where
  "replace_all before [] pat repl = []"
| "replace_all before (c # cs) pat repl =
     (if pat \<noteq> [] \<and> take (length pat) (c # cs) = pat
      then substitution pat before (drop (length pat) (c # cs)) repl @
           replace_all (before @ pat) (drop (length pat) (c # cs)) pat repl
      else c # replace_all (before @ [c]) cs pat repl)"
  by pat_completeness auto
termination
  by (relation "measure (\<lambda>(before, s, pat, repl). length s)") auto

definition replace_regexp :: "project_host \<Rightarrow> string \<Rightarrow> string \<Rightarrow> string \<Rightarrow> thrown + string" where
  "replace_regexp h source repl s =
     (if list_all (\<lambda>c. \<not> regexp_special c) source
      then Inr (replace_all [] s source repl)
      else regexp_replace h source repl s)"

text \<open>
  \<^verbatim>\<open>
  private macroExpansion(template: string, macroDict: Record<string, string>): string {
    const macroIndicator = '@@';
    let output = template;
    for (const macro in macroDict) {
      if (macroDict[macro].includes(macroIndicator)) {
        throw new Error(`Macro value ${macroDict[macro]} is invalid because it contains ${macroIndicator}`);
      }
      output = output.replace(new RegExp(macroIndicator + macro + macroIndicator, 'g'), macroDict[macro]);
    }
    return output;
  }
  \<close>
  The dictionary is the list of its entries in the order \<^verbatim>\<open>for ... in\<close> visits them.
\<close>

definition macroIndicator :: string where
  "macroIndicator = ''@@''"

fun macro_loop :: "project_host \<Rightarrow> (string \<times> string) list \<Rightarrow> string \<Rightarrow> thrown + string" where
  "macro_loop h [] output = Inr output"
| "macro_loop h ((macro, val) # rest) output =
     (if includes_str val macroIndicator
      then Inl (Throw_Error (Error_text
             (''Macro value '' @ val @ '' is invalid because it contains '' @ macroIndicator)))
      else (case replace_regexp h (macroIndicator @ macro @ macroIndicator) val output of
              Inl e \<Rightarrow> Inl e
            | Inr output' \<Rightarrow> macro_loop h rest output'))"

definition macroExpansion :: "project_host \<Rightarrow> string \<Rightarrow> (string \<times> string) list \<Rightarrow> thrown + string" where
  "macroExpansion h template macroDict = macro_loop h macroDict template"

subsection \<open>createNewProject\<close>

text \<open>
  The disk as \<^verbatim>\<open>createNewProject\<close> sees it: the content of every file and the set of
  directories. \<^verbatim>\<open>fs.access\<close> succeeds on a path that exists. \<^verbatim>\<open>fs.mkdir\<close> with
  \<^verbatim>\<open>recursive\<close> makes the directory and its missing parents, unless a file has the
  name of the directory or of one of its parents. \<^verbatim>\<open>fs.writeFile\<close> creates or
  overwrites a file, unless a directory has its name or its parent directory is
  missing. The parents of a path are its proper prefixes that end before a slash.
\<close>

record disk =
  files :: "string \<rightharpoonup> string"
  dirs :: "string set"

fun parent_dirs_from :: "string \<Rightarrow> string \<Rightarrow> string list" where
  "parent_dirs_from before [] = []"
| "parent_dirs_from before (c # cs) =
     (if c = CHR ''/'' \<and> before \<noteq> [] then [before] else []) @
     parent_dirs_from (before @ [c]) cs"

definition parent_dirs :: "string \<Rightarrow> string list" where
  "parent_dirs p = parent_dirs_from [] p"

definition access :: "disk \<Rightarrow> string \<Rightarrow> bool" where
  "access d p \<longleftrightarrow> files d p \<noteq> None \<or> p \<in> dirs d"

definition mkdir :: "disk \<Rightarrow> string \<Rightarrow> js_error + disk" where
  "mkdir d p =
     (if files d p \<noteq> None then Inl (EEXIST p)
      else if list_ex (\<lambda>q. files d q \<noteq> None) (parent_dirs p) then Inl (ENOTDIR p)
      else Inr (d\<lparr>dirs := insert p (set (parent_dirs p) \<union> dirs d)\<rparr>))"

definition writeFile :: "disk \<Rightarrow> string \<Rightarrow> string \<Rightarrow> js_error + disk" where
  "writeFile d p content =
     (if p \<in> dirs d then Inl (EISDIR p)
      else if parent_dirs p \<noteq> [] \<and> last (parent_dirs p) \<notin> dirs d then Inl (ENOENT p)
      else Inr (d\<lparr>files := (files d)(p \<mapsto> content)\<rparr>))"

text \<open>\<^verbatim>\<open>toLowerCase\<close> and \<^verbatim>\<open>toUpperCase\<close> on the letters of ASCII.\<close>

definition lower_letters :: string where
  "lower_letters = ''abcdefghijklmnopqrstuvwxyz''"

definition upper_letters :: string where
  "upper_letters = ''ABCDEFGHIJKLMNOPQRSTUVWXYZ''"

definition toLowerCase :: "string \<Rightarrow> string" where
  "toLowerCase s =
     map (\<lambda>c. case map_of (zip upper_letters lower_letters) c of Some l \<Rightarrow> l | None \<Rightarrow> c) s"

definition toUpperCase :: "string \<Rightarrow> string" where
  "toUpperCase s =
     map (\<lambda>c. case map_of (zip lower_letters upper_letters) c of Some u \<Rightarrow> u | None \<Rightarrow> c) s"

text \<open>
  \<^verbatim>\<open>createNewProject\<close> is asynchronous: at each \<^verbatim>\<open>await\<close> other work may run before
  the function goes on. \<open>others n\<close> is what that other work does to the disk at the
  \<open>n\<close>-th \<^verbatim>\<open>await\<close> (after \<^verbatim>\<open>fs.access\<close>, after \<^verbatim>\<open>fs.mkdir\<close>). The result is the
  returned path or the thrown value, and the disk afterwards. A \<^verbatim>\<open>projectGuid\<close> left out
  is \<open>None\<close>.
\<close>

definition createNewProject ::
  "project_host \<Rightarrow> (nat \<Rightarrow> disk \<Rightarrow> disk) \<Rightarrow> string \<Rightarrow> string \<Rightarrow> string option \<Rightarrow> disk
   \<Rightarrow> (thrown + string) \<times> disk" where
  "createNewProject h others newProjName folder projectGuid d =
     (if projectGuid \<noteq> None \<and> the projectGuid \<noteq> [] \<and> \<not> isUUID h (the projectGuid) then
        (Inl (Throw_Error (Error_text
           (''Specified GUID is invalid: '' @ [CHR 0x27] @ the projectGuid @ [CHR 0x27]))), d)
      else
        let macroDict =
              [(''PROJECT_NAME'', newProjName),
               (''PROJECT_GUID'',
                  case projectGuid of Some g \<Rightarrow> g | None \<Rightarrow> toUpperCase (generateUuid h))]
        in case macroExpansion h (newSqlProjectTemplate h) macroDict of
             Inl e \<Rightarrow> (Inl e, d)
           | Inr newProjFileContents \<Rightarrow>
               let newProjFileName =
                     (if endsWith (toLowerCase newProjName) (sqlprojExtension h) then newProjName
                      else newProjName @ sqlprojExtension h);
                   newProjFilePath = path_join h [folder, newProjFileName];
                   fileExists = access d newProjFilePath;
                   d1 = others 1 d
               in if fileExists then
                    (Inl (Throw_Error (Error_text (projectAlreadyExists h newProjFileName folder))), d1)
                  else
                    (case mkdir d1 (path_dirname h newProjFilePath) of
                       Inl e \<Rightarrow> (Inl (Throw_Error e), d1)
                     | Inr d2 \<Rightarrow>
                         (case writeFile (others 2 d2) newProjFilePath newProjFileContents of
                            Inl e \<Rightarrow> (Inl (Throw_Error e), others 2 d2)
                          | Inr d3 \<Rightarrow> (Inr newProjFilePath, d3))))"

text \<open>
  The pattern of \<^verbatim>\<open>UUID.isUUID\<close>: 8, 4, 4, 4 and 12 hexadecimal digits in either
  case, separated by hyphens.
\<close>

definition hex_digit :: "char \<Rightarrow> bool" where
  "hex_digit c \<longleftrightarrow> c \<in> set ''0123456789abcdefABCDEF''"

fun hex_groups :: "nat list \<Rightarrow> string \<Rightarrow> bool" where
  "hex_groups [] s = False"
| "hex_groups [n] s = (length s = n \<and> list_all hex_digit s)"
| "hex_groups (n # m # ns) s =
     (list_all hex_digit (take n s) \<and> length (take n s) = n \<and>
      take 1 (drop n s) = ''-'' \<and> hex_groups (m # ns) (drop (Suc n) s))"

definition uuid_pattern :: "string \<Rightarrow> bool" where
  "uuid_pattern s = hex_groups [8, 4, 4, 4, 12] s"

text \<open>
  A concrete controller host: a two-macro template, the \<^verbatim>\<open>.sqlproj\<close> extension, and
  an engine that is never asked (the macro names are literal).
\<close>

definition demo_project_host :: project_host where
  "demo_project_host =
     \<lparr> path_join = join_segments, path_dirname = posix_dirname, path_basename = posix_basename,
       isUUID = uuid_pattern,
       generateUuid = ''0f8fad5b-d9cb-469f-a165-70867728950e'',
       newSqlProjectTemplate = ''<Name>@@PROJECT_NAME@@</Name><ProjectGuid>{@@PROJECT_GUID@@}</ProjectGuid>'',
       sqlprojExtension = ''.sqlproj'',
       projectAlreadyExists = (\<lambda>name folder. ''A project named '' @ name @ '' already exists in '' @ folder),
       regexp_replace = (\<lambda>source repl s. Inl (Throw_Error (Error_text ''unused''))) \<rparr>"

definition empty_disk :: disk where
  "empty_disk = \<lparr> files = Map.empty, dirs = {} \<rparr>"

text \<open>Nobody else touches the disk.\<close>

definition undisturbed :: "nat \<Rightarrow> disk \<Rightarrow> disk" where
  "undisturbed n d = d"

text \<open>
  Somebody else creates \<^verbatim>\<open>/work/Shop.sqlproj\<close> while \<^verbatim>\<open>createNewProject\<close> waits for
  \<^verbatim>\<open>fs.access\<close>.
\<close>

definition racing_writer :: "nat \<Rightarrow> disk \<Rightarrow> disk" where
  "racing_writer n d =
     (if n = 1 then d\<lparr>files := (files d)(''/work/Shop.sqlproj'' \<mapsto> ''theirs'')\<rparr> else d)"

lemmas project_simps =
  createNewProject_def demo_project_host_def uuid_pattern_def hex_digit_def
  macroExpansion_def macroIndicator_def replace_regexp_def regexp_special_def
  endsWith_def toLowerCase_def toUpperCase_def lower_letters_def upper_letters_def access_def
  mkdir_def writeFile_def parent_dirs_def
  empty_disk_def undisturbed_def racing_writer_def posix_dirname_def strip_slashes_def Let_def

text \<open>
  C10. \<^verbatim>\<open>macroExpansion\<close> on a macro value without the indicator \<^verbatim>\<open>@@\<close> but with a
  dollar sign: the value is read as a replacement template, so \<^verbatim>\<open>$$\<close> comes out as
  one dollar sign and \<^verbatim>\<open>$&\<close> as the matched macro reference. The occurrence of the
  macro is not replaced by the value.
\<close>

theorem macroExpansion_dollar_patterns:
  "\<not> includes_str ''Price$$Table'' macroIndicator \<and>
   macroExpansion h ''CREATE TABLE [@@OBJECT_NAME@@]'' [(''OBJECT_NAME'', ''Price$$Table'')] =
     Inr ''CREATE TABLE [Price$Table]'' \<and>
   \<not> includes_str ''Q$&A'' macroIndicator \<and>
   macroExpansion h ''CREATE TABLE [@@OBJECT_NAME@@]'' [(''OBJECT_NAME'', ''Q$&A'')] =
     Inr ''CREATE TABLE [Q@@OBJECT_NAME@@A]''"
  by (simp add: macroExpansion_def macroIndicator_def replace_regexp_def regexp_special_def)

text \<open>
  The two paths beside the one C8 fails on. A supplied, non-empty \<^verbatim>\<open>projectGuid\<close> that
  is not a valid UUID makes \<^verbatim>\<open>createNewProject\<close> throw as its first step, with the
  disk as it was, whatever other work is pending. And the existence check and the write
  are separate steps: when another writer creates the project file after the check has
  found none, \<^verbatim>\<open>createNewProject\<close> (here without a \<^verbatim>\<open>projectGuid\<close>, so with a
  generated one) still returns the path and its write replaces the other writer's file.
\<close>

lemma createNewProject_invalid_guid:
  "(\<forall>g. g \<noteq> [] \<and> \<not> isUUID h g \<longrightarrow>
      createNewProject h others newProjName folder (Some g) d =
        (Inl (Throw_Error (Error_text
           (''Specified GUID is invalid: '' @ [CHR 0x27] @ g @ [CHR 0x27]))), d)) \<and>
   (\<not> access empty_disk ''/work/Shop.sqlproj'' \<and>
    files (racing_writer 1 empty_disk) ''/work/Shop.sqlproj'' = Some ''theirs'' \<and>
    fst (createNewProject demo_project_host racing_writer ''Shop'' ''/work'' None empty_disk) =
      Inr ''/work/Shop.sqlproj'' \<and>
    files (snd (createNewProject demo_project_host racing_writer ''Shop'' ''/work'' None empty_disk))
      ''/work/Shop.sqlproj'' =
      Some ''<Name>Shop</Name><ProjectGuid>{0F8FAD5B-D9CB-469F-A165-70867728950E}</ProjectGuid>'')"
proof (intro conjI allI impI)
  fix g
  assume "g \<noteq> [] \<and> \<not> isUUID h g"
  then show "createNewProject h others newProjName folder (Some g) d =
        (Inl (Throw_Error (Error_text
           (''Specified GUID is invalid: '' @ [CHR 0x27] @ g @ [CHR 0x27]))), d)"
    by (simp add: createNewProject_def)
qed (simp_all add: project_simps)

text \<open>
  C8. \<^verbatim>\<open>createNewProject\<close> with the empty string as \<^verbatim>\<open>projectGuid\<close>: a supplied value
  that is not a valid UUID. The guard \<^verbatim>\<open>projectGuid && ...\<close> reads it as absent and
  does not throw; \<^verbatim>\<open>projectGuid ?? generateUuid()\<close> reads it as supplied and
  generates nothing. The directory is made and the project file is written with an
  empty GUID.
\<close>

theorem createNewProject_empty_guid:
  "\<not> isUUID demo_project_host [] \<and>
   fst (createNewProject demo_project_host undisturbed ''Shop'' ''/work'' (Some []) empty_disk) =
     Inr ''/work/Shop.sqlproj'' \<and>
   files (snd (createNewProject demo_project_host undisturbed ''Shop'' ''/work'' (Some []) empty_disk))
     ''/work/Shop.sqlproj'' = Some ''<Name>Shop</Name><ProjectGuid>{}</ProjectGuid>'' \<and>
   ''/work'' \<in> dirs (snd (createNewProject demo_project_host undisturbed ''Shop'' ''/work'' (Some []) empty_disk))"
  by (simp add: project_simps)

section \<open>The Azure Arc tree provider\<close>

text \<open>
  Modelled from the spec: \<^verbatim>\<open>ControllerInfo\<close>, \<^verbatim>\<open>ControllerModel\<close> and the tree node
  classes are not among the sources. A controller is known by what the provider reads of
  its info (\<^verbatim>\<open>url\<close>, \<^verbatim>\<open>username\<close>, \<^verbatim>\<open>rememberPassword\<close>); a tree node is the loading
  placeholder, a controller node, or a resource node below a controller. A controller
  node is an object of its own: it is the pair of its identity, a number no other
  controller node of the provider has, and the info of its model.
\<close>

record ControllerInfo =
  url :: string
  username :: string
  rememberPassword :: bool

type_synonym ControllerTreeNode = "nat \<times> ControllerInfo"

datatype TreeNode = LoadingNode | ControllerNode ControllerTreeNode | ResourceNode string

text \<open>
  The surroundings: \<^verbatim>\<open>element.getChildren()\<close> of a node, \<^verbatim>\<open>model.equals\<close>, and the
  ways the host can fail: \<^verbatim>\<open>globalState.get\<close> throwing, the credentials provider
  rejecting, \<^verbatim>\<open>globalState.update\<close> rejecting (\<open>None\<close> when they do not).
\<close>

record arc_host =
  node_children :: "TreeNode \<Rightarrow> thrown + TreeNode list"
  model_equals :: "ControllerInfo \<Rightarrow> ControllerInfo \<Rightarrow> bool"
  get_throws :: "thrown option"
  credentials_reject :: "thrown option"
  update_rejects :: "thrown option"

text \<open>
  The provider: \<^verbatim>\<open>_loading\<close>, \<^verbatim>\<open>_controllerNodes\<close>, the identity the next new
  controller node gets, the arguments of the \<^verbatim>\<open>_onDidChangeTreeData.fire\<close> calls so
  far, the persisted controller list (\<open>None\<close> before the first save) and the
  credential store.
\<close>

record arc_provider =
  loading :: bool
  controllerNodes :: "ControllerTreeNode list"
  next_node :: nat
  changed :: "TreeNode option list"
  memento :: "ControllerInfo list option"
  credentials :: "string \<rightharpoonup> string"

definition init_arc :: "ControllerInfo list option \<Rightarrow> arc_provider" where
  "init_arc saved =
     \<lparr> loading = True, controllerNodes = [], next_node = 0, changed = [], memento = saved,
       credentials = Map.empty \<rparr>"

definition getChildren :: "arc_host \<Rightarrow> arc_provider \<Rightarrow> TreeNode option \<Rightarrow> thrown + TreeNode list"
  where
  "getChildren h st element =
     (if loading st then Inr [LoadingNode]
      else (case element of
              Some e \<Rightarrow> node_children h e
            | None \<Rightarrow> Inr (map ControllerNode (controllerNodes st))))"

text \<open>
  \<^verbatim>\<open>
  private async loadSavedControllers(): Promise<void> {
    try {
      const controllerMementos: ControllerInfo[] = this._context.globalState.get(mementoToken) || [];
      this._controllerNodes = controllerMementos.map(...);
    } finally {
      this._loading = false;
      this._onDidChangeTreeData.fire(undefined);
    }
  }
  \<close>
\<close>

definition loadSavedControllers :: "arc_host \<Rightarrow> arc_provider \<Rightarrow> (thrown + unit) \<times> arc_provider" where
  "loadSavedControllers h st =
     (case get_throws h of
        Some e \<Rightarrow> (Inl e, st\<lparr>loading := False, changed := changed st @ [None]\<rparr>)
      | None \<Rightarrow>
          (Inr (),
           (let infos = (case memento st of None \<Rightarrow> [] | Some infos \<Rightarrow> infos)
            in st\<lparr>controllerNodes := zip [next_node st ..< next_node st + length infos] infos,
                  next_node := next_node st + length infos,
                  loading := False, changed := changed st @ [None]\<rparr>)))"

definition getCredentialId :: "ControllerInfo \<Rightarrow> string" where
  "getCredentialId info = url info @ ''::'' @ username info"

definition saveControllers :: "arc_host \<Rightarrow> arc_provider \<Rightarrow> (thrown + unit) \<times> arc_provider" where
  "saveControllers h st =
     (case update_rejects h of
        Some e \<Rightarrow> (Inl e, st)
      | None \<Rightarrow> (Inr (), st\<lparr>memento := Some (map snd (controllerNodes st))\<rparr>))"

definition updatePassword ::
  "arc_host \<Rightarrow> ControllerInfo \<Rightarrow> string \<Rightarrow> arc_provider \<Rightarrow> (thrown + unit) \<times> arc_provider" where
  "updatePassword h info password st =
     (case credentials_reject h of
        Some e \<Rightarrow> (Inl e, st)
      | None \<Rightarrow>
          if rememberPassword info
          then (Inr (), st\<lparr>credentials := (credentials st)(getCredentialId info \<mapsto> password)\<rparr>)
          else (Inr (), st\<lparr>credentials := (credentials st)(getCredentialId info := None)\<rparr>))"

text \<open>\<^verbatim>\<open>find\<close> the first node whose model equals the given one, and give it the new info.\<close>

fun update_first ::
  "(ControllerInfo \<Rightarrow> bool) \<Rightarrow> ControllerInfo \<Rightarrow> ControllerTreeNode list \<Rightarrow> ControllerTreeNode list"
  where
  "update_first same info [] = []"
| "update_first same info (n # ns) =
     (if same (snd n) then (fst n, info) # ns else n # update_first same info ns)"

definition addOrUpdateController ::
  "arc_host \<Rightarrow> ControllerInfo \<Rightarrow> string \<Rightarrow> bool \<Rightarrow> arc_provider \<Rightarrow> (thrown + unit) \<times> arc_provider"
  where
  "addOrUpdateController h model password refreshTree st =
     (let st1 = (if list_ex (\<lambda>node. model_equals h model (snd node)) (controllerNodes st)
                 then st\<lparr>controllerNodes := update_first (model_equals h model) model (controllerNodes st)\<rparr>
                 else st\<lparr>controllerNodes := controllerNodes st @ [(next_node st, model)],
                         next_node := Suc (next_node st)\<rparr>)
      in case updatePassword h model password st1 of
           (Inl e, st2) \<Rightarrow> (Inl e, st2)
         | (Inr _, st2) \<Rightarrow>
             saveControllers h
               (if refreshTree then st2\<lparr>changed := changed st2 @ [None]\<rparr> else st2))"

text \<open>\<^verbatim>\<open>node !== controllerNode\<close> compares the objects: the identities.\<close>

definition removeController ::
  "arc_host \<Rightarrow> ControllerTreeNode \<Rightarrow> arc_provider \<Rightarrow> (thrown + unit) \<times> arc_provider"
  where
  "removeController h controllerNode st =
     saveControllers h
       (st\<lparr>controllerNodes := filter (\<lambda>node. fst node \<noteq> fst controllerNode) (controllerNodes st),
           changed := changed st @ [None]\<rparr>)"

definition refreshNode :: "TreeNode option \<Rightarrow> arc_provider \<Rightarrow> arc_provider" where
  "refreshNode node st = st\<lparr>changed := changed st @ [node]\<rparr>"

text \<open>The calls that change the provider, and a sequence of them.\<close>

datatype arc_call =
    AddOrUpdateController ControllerInfo string bool
  | RemoveController ControllerTreeNode
  | RefreshNode "TreeNode option"
  | LoadSavedControllers

fun arc_step :: "arc_host \<Rightarrow> arc_provider \<Rightarrow> arc_call \<Rightarrow> arc_provider" where
  "arc_step h st (AddOrUpdateController model password refreshTree) =
     snd (addOrUpdateController h model password refreshTree st)"
| "arc_step h st (RemoveController node) = snd (removeController h node st)"
| "arc_step h st (RefreshNode node) = refreshNode node st"
| "arc_step h st LoadSavedControllers = snd (loadSavedControllers h st)"

definition arc_run :: "arc_host \<Rightarrow> arc_call list \<Rightarrow> arc_provider \<Rightarrow> arc_provider" where
  "arc_run h calls st = foldl (arc_step h) st calls"

text \<open>A host whose \<^verbatim>\<open>globalState.get\<close> throws, and one controller.\<close>

definition failing_arc_host :: arc_host where
  "failing_arc_host =
     \<lparr> node_children = (\<lambda>n. Inr [ResourceNode ''postgres'']),
       model_equals = (\<lambda>a b. url a = url b \<and> username a = username b),
       get_throws = Some (Throw_Error (Error_text ''memento unreadable'')),
       credentials_reject = None,
       update_rejects = None \<rparr>"

definition arc_controller :: ControllerInfo where
  "arc_controller = \<lparr> url = ''https://arc:30080'', username = ''admin'', rememberPassword = True \<rparr>"

lemma loading_saveControllers: "loading (snd (saveControllers h st)) = loading st"
  by (simp add: saveControllers_def split: option.splits)

lemma loading_updatePassword: "loading (snd (updatePassword h info pw st)) = loading st"
  by (simp add: updatePassword_def split: option.splits)

lemma loading_addOrUpdateController:
  "loading (snd (addOrUpdateController h model pw refreshTree st)) = loading st"
proof -
  obtain r st2 where u: "updatePassword h model pw
      (if list_ex (\<lambda>node. model_equals h model (snd node)) (controllerNodes st)
       then st\<lparr>controllerNodes := update_first (model_equals h model) model (controllerNodes st)\<rparr>
       else st\<lparr>controllerNodes := controllerNodes st @ [(next_node st, model)],
               next_node := Suc (next_node st)\<rparr>) = (r, st2)"
    by (cases "updatePassword h model pw
      (if list_ex (\<lambda>node. model_equals h model (snd node)) (controllerNodes st)
       then st\<lparr>controllerNodes := update_first (model_equals h model) model (controllerNodes st)\<rparr>
       else st\<lparr>controllerNodes := controllerNodes st @ [(next_node st, model)],
               next_node := Suc (next_node st)\<rparr>)")
  have "loading st2 = loading st"
    using loading_updatePassword [of h model pw
      "if list_ex (\<lambda>node. model_equals h model (snd node)) (controllerNodes st)
       then st\<lparr>controllerNodes := update_first (model_equals h model) model (controllerNodes st)\<rparr>
       else st\<lparr>controllerNodes := controllerNodes st @ [(next_node st, model)],
               next_node := Suc (next_node st)\<rparr>"] u
    by (simp split: if_splits)
  then show ?thesis
    using u by (cases r) (simp_all add: addOrUpdateController_def Let_def loading_saveControllers)
qed

lemma loading_removeController: "loading (snd (removeController h node st)) = loading st"
  by (simp add: removeController_def loading_saveControllers)

lemma not_loading_step: "\<not> loading st \<Longrightarrow> \<not> loading (arc_step h st c)"
  by (cases c)
     (simp_all add: loading_addOrUpdateController loading_removeController refreshNode_def
        loadSavedControllers_def split: option.splits)

lemma not_loading_run: "\<not> loading st \<Longrightarrow> \<not> loading (arc_run h calls st)"
  unfolding arc_run_def
  by (induction calls arbitrary: st) (simp_all add: not_loading_step)

text \<open>
  C9. While \<^verbatim>\<open>_loading\<close> is set, \<^verbatim>\<open>getChildren\<close> returns exactly the loading
  placeholder for every argument, \<^verbatim>\<open>undefined\<close> included. \<^verbatim>\<open>loadSavedControllers\<close>
  always clears the flag and fires one tree-change event, also when reading the persisted
  list throws. After it, whatever calls follow, the flag stays cleared: \<^verbatim>\<open>getChildren\<close>
  answers with the element's own children or with the controller nodes, and the
  top-level list never holds the loading node.
\<close>

theorem arc_loading_placeholder:
  "(loading st \<longrightarrow> (\<forall>element. getChildren h st element = Inr [LoadingNode])) \<and>
   \<not> loading (snd (loadSavedControllers h st)) \<and>
   changed (snd (loadSavedControllers h st)) = changed st @ [None] \<and>
   (\<forall>calls element.
      \<not> loading (arc_run h calls (snd (loadSavedControllers h st))) \<and>
      getChildren h (arc_run h calls (snd (loadSavedControllers h st))) element =
        (case element of
           Some e \<Rightarrow> node_children h e
         | None \<Rightarrow>
             Inr (map ControllerNode
                    (controllerNodes (arc_run h calls (snd (loadSavedControllers h st)))))) \<and>
      (\<forall>nodes. getChildren h (arc_run h calls (snd (loadSavedControllers h st))) None = Inr nodes
         \<longrightarrow> LoadingNode \<notin> set nodes))"
proof -
  have l: "\<not> loading (snd (loadSavedControllers h st))"
    by (simp add: loadSavedControllers_def split: option.splits)
  have c: "changed (snd (loadSavedControllers h st)) = changed st @ [None]"
    by (simp add: loadSavedControllers_def split: option.splits)
  have r: "\<not> loading (arc_run h calls (snd (loadSavedControllers h st)))" for calls
    using l by (rule not_loading_run)
  show ?thesis
    using l c r by (auto simp: getChildren_def)
qed

theorem arc_loading_placeholder_witness:
  "loading (init_arc None) \<and>
   getChildren failing_arc_host (init_arc None) None = Inr [LoadingNode] \<and>
   getChildren failing_arc_host (init_arc None) (Some (ControllerNode (0, arc_controller))) =
     Inr [LoadingNode] \<and>
   fst (loadSavedControllers failing_arc_host (init_arc None)) =
     Inl (Throw_Error (Error_text ''memento unreadable'')) \<and>
   changed (snd (loadSavedControllers failing_arc_host (init_arc None))) = [None] \<and>
   getChildren failing_arc_host
     (arc_run failing_arc_host [AddOrUpdateController arc_controller ''secret'' True]
        (snd (loadSavedControllers failing_arc_host (init_arc None)))) None =
     Inr [ControllerNode (0, arc_controller)]"
proof -
  have i: "loading (init_arc None)" "changed (init_arc None) = []"
    by (simp_all add: init_arc_def)
  note t = arc_loading_placeholder [of "init_arc None" failing_arc_host]
  from t i have a: "getChildren failing_arc_host (init_arc None) element = Inr [LoadingNode]"
    for element by blast
  from t i have b: "changed (snd (loadSavedControllers failing_arc_host (init_arc None))) = [None]"
    by simp
  from t have "getChildren failing_arc_host
     (arc_run failing_arc_host [AddOrUpdateController arc_controller ''secret'' True]
        (snd (loadSavedControllers failing_arc_host (init_arc None)))) None =
     Inr (map ControllerNode (controllerNodes
       (arc_run failing_arc_host [AddOrUpdateController arc_controller ''secret'' True]
        (snd (loadSavedControllers failing_arc_host (init_arc None))))))"
    by (auto split: option.splits)
  moreover have "controllerNodes
       (arc_run failing_arc_host [AddOrUpdateController arc_controller ''secret'' True]
        (snd (loadSavedControllers failing_arc_host (init_arc None)))) = [(0, arc_controller)]"
    by (simp add: arc_run_def addOrUpdateController_def updatePassword_def saveControllers_def
        loadSavedControllers_def failing_arc_host_def init_arc_def arc_controller_def Let_def)
  moreover have "fst (loadSavedControllers failing_arc_host (init_arc None)) =
     Inl (Throw_Error (Error_text ''memento unreadable''))"
    by (simp add: loadSavedControllers_def failing_arc_host_def)
  ultimately show ?thesis using i a b by simp
qed

end
